theory Spec2Isabelle
  imports Main "HOL-Library.Char_ord" "HOL-Library.List_Lexorder"
begin

text \<open>
  A model of three stages of the book pipeline: the chapter extractor
  (4-chapter\_subbook\_extraction.py), which cuts a marked-up text into chapter files; the
  sentence segmentation engine (5-spacy\_sentence\_parser.py), which turns the chapter
  files of a book into chapter records with numbered sentences; and the translator
  (7-translator.py), which copies a chapter record for each target language. Every
  function of the model carries the name of the function or variable of the source it
  follows. What the source takes from outside (the sentence splitter, the random
  identifiers, the translation service, the file system) is a parameter of the model.
\<close>

section \<open>Strings as Python has them\<close>

text \<open>
  A Python \<open>str\<close> is modelled as a \<open>string\<close> whose characters are the code points
  below 256. On that range \<open>str.isspace\<close> and the regular expression class \<open>\s\<close> hold
  for exactly the code points listed in \<open>is_space\<close>, \<open>\d\<close> holds for the ASCII digits, and
  \<open>re.IGNORECASE\<close> identifies a literal ASCII letter with its other case only.
\<close>

definition LF :: char where
  "LF = CHR 0x0A"

definition CR :: char where
  "CR = CHR 0x0D"

definition is_space :: "char \<Rightarrow> bool" where
  "is_space c = (of_char c \<in> set [9, 10, 11, 12, 13, 28, 29, 30, 31, 32, 133, 160 :: nat])"

definition is_digit :: "char \<Rightarrow> bool" where
  "is_digit c = (48 \<le> (of_char c :: nat) \<and> (of_char c :: nat) \<le> 57)"

definition strip :: "string \<Rightarrow> string" where
  "strip s = rev (dropWhile is_space (rev (dropWhile is_space s)))"

definition starts_with :: "string \<Rightarrow> string \<Rightarrow> bool" where
  "starts_with p s = (take (length p) s = p)"

definition ends_with :: "string \<Rightarrow> string \<Rightarrow> bool" where
  "ends_with p s = (length p \<le> length s \<and> drop (length s - length p) s = p)"

definition fold_case :: "char \<Rightarrow> char" where
  "fold_case c = (if 65 \<le> (of_char c :: nat) \<and> (of_char c :: nat) \<le> 90
                  then char_of ((of_char c :: nat) + 32) else c)"

definition starts_with_ci :: "string \<Rightarrow> string \<Rightarrow> bool" where
  "starts_with_ci p s = (map fold_case (take (length p) s) = map fold_case p)"

text \<open>\<open>str.splitlines()\<close>: the line boundaries below code point 256; no final empty line.\<close>

definition is_linebreak :: "char \<Rightarrow> bool" where
  "is_linebreak c = (of_char c \<in> set [10, 11, 12, 13, 28, 29, 30, 133 :: nat])"

fun splitlines_from :: "string \<Rightarrow> string \<Rightarrow> string list" where
  "splitlines_from cur [] = (if cur = [] then [] else [cur])"
| "splitlines_from cur (c # cs) =
     (if c = CR then
        (case cs of
           [] \<Rightarrow> [cur]
         | d # ds \<Rightarrow> if d = LF then cur # splitlines_from [] ds
                    else cur # splitlines_from [] (d # ds))
      else if is_linebreak c then cur # splitlines_from [] cs
      else splitlines_from (cur @ [c]) cs)"

definition splitlines :: "string \<Rightarrow> string list" where
  "splitlines s = splitlines_from [] s"

text \<open>\<open>str.split()\<close> with no argument: the maximal runs of non-whitespace.\<close>

fun split_from :: "string \<Rightarrow> string \<Rightarrow> string list" where
  "split_from cur [] = (if cur = [] then [] else [cur])"
| "split_from cur (c # cs) =
     (if is_space c then (if cur = [] then split_from [] cs else cur # split_from [] cs)
      else split_from (cur @ [c]) cs)"

definition split_ws :: "string \<Rightarrow> string list" where
  "split_ws s = split_from [] s"

fun join_with :: "string \<Rightarrow> string list \<Rightarrow> string" where
  "join_with sep [] = []"
| "join_with sep [w] = w"
| "join_with sep (w # v # ws) = w @ sep @ join_with sep (v # ws)"

text \<open>\<open>str(n)\<close> and the format \<open>{n:07d}\<close> of a Python integer.\<close>

fun digits :: "nat \<Rightarrow> string" where
  "digits n = (if n < 10 then [char_of (48 + n)]
               else digits (n div 10) @ [char_of (48 + n mod 10)])"

declare digits.simps [simp del]

definition str_int :: "int \<Rightarrow> string" where
  "str_int i = (if i < 0 then CHR ''-'' # digits (nat (- i)) else digits (nat i))"

definition zero_pad :: "nat \<Rightarrow> string \<Rightarrow> string" where
  "zero_pad w ds = replicate (w - length ds) (CHR ''0'') @ ds"

definition format_07d :: "int \<Rightarrow> string" where
  "format_07d i = (if i < 0 then CHR ''-'' # zero_pad 6 (digits (nat (- i)))
                   else zero_pad 7 (digits (nat i)))"

text \<open>\<open>int(s)\<close> on a non-empty run of ASCII digits.\<close>

definition int_of_digits :: "string \<Rightarrow> int" where
  "int_of_digits ds = foldl (\<lambda>a c. a * 10 + (int (of_char c) - 48)) 0 ds"

section \<open>The marker regular expressions\<close>

text \<open>
  The three marker patterns of the pipeline have one shape,
  \<^verbatim>\<open><!--\s*KEY:\s*(.+?)\s*-->\<close>, matched with \<open>re.match\<close> (anchored at the start of the
  line only) under \<open>re.IGNORECASE\<close>. \<open>lazy_group g rest\<close> is the lazy group \<^verbatim>\<open>(.+?)\<close> holding
  \<open>g\<close> already: it stops at the first position where \<^verbatim>\<open>\s*-->\<close> matches and grows by one
  character (never a newline) otherwise. When the group cannot start at the first
  non-blank character after the key, the matcher backtracks into the blanks before it
  (\<open>blank_group\<close>): the group is then the last blank that is not a newline.
\<close>

fun lazy_group :: "string \<Rightarrow> string \<Rightarrow> string option" where
  "lazy_group g [] = None"
| "lazy_group g (c # cs) =
     (if starts_with ''-->'' (dropWhile is_space (c # cs)) then Some g
      else if c = LF then None
      else lazy_group (g @ [c]) cs)"

definition blank_group :: "string \<Rightarrow> string option" where
  "blank_group t =
     (if starts_with ''-->'' (dropWhile is_space t)
      then (case dropWhile (\<lambda>c. c = LF) (rev (takeWhile is_space t)) of
              [] \<Rightarrow> None
            | c # _ \<Rightarrow> Some [c])
      else None)"

definition marker_match :: "string \<Rightarrow> string \<Rightarrow> string option" where
  "marker_match key line =
     (if \<not> starts_with ''<!--'' line then None
      else let t0 = dropWhile is_space (drop 4 line) in
        if \<not> starts_with_ci key t0 then None
        else let t = drop (length key) t0 in
          (case dropWhile is_space t of
             [] \<Rightarrow> blank_group t
           | c # cs \<Rightarrow>
               (case lazy_group [c] cs of
                  Some g \<Rightarrow> Some g
                | None \<Rightarrow> blank_group t)))"

section \<open>The sentence segmentation engine (5-spacy\_sentence\_parser.py)\<close>

subsection \<open>Records\<close>

record sentence_dict =
  sentenceID :: string
  sentenceIndex :: int
  globalSentenceIndex :: int
  reference :: string
  sentence_text :: string
  audioFile :: string

record paragraph_dict =
  paragraphID :: string
  paragraphIndex :: int
  sentences :: "sentence_dict list"

record chapter_dict =
  chapterID :: string
  language :: string
  chapterNumber :: int
  chapterTitle :: string
  paragraphs :: "paragraph_dict list"

text \<open>
  What the engine takes from outside: the spaCy pipeline (\<open>nlp\<close> gives the texts of
  \<open>doc.sents\<close> for a line), the random \<open>uuid.uuid4()\<close> (its n-th draw) and the Unicode
  case conversions \<open>str.capitalize\<close> and \<open>str.lower\<close>.
\<close>

record env =
  nlp :: "string \<Rightarrow> string list"
  uuid4 :: "nat \<Rightarrow> string"
  str_capitalize :: "string \<Rightarrow> string"
  str_lower :: "string \<Rightarrow> string"

text \<open>
  The mutable state of a run: \<open>global_counter["value"]\<close> and the number of identifiers
  drawn so far.
\<close>

record run_state =
  counter_value :: int
  uuid_draws :: nat

definition draw_uuid :: "env \<Rightarrow> run_state \<Rightarrow> string \<times> run_state" where
  "draw_uuid e st = (uuid4 e (uuid_draws st), st\<lparr>uuid_draws := Suc (uuid_draws st)\<rparr>)"

subsection \<open>Helpers\<close>

definition exceptions :: "string list" where
  "exceptions = [''of'', ''and'', ''the'', ''in'', ''on'', ''at'', ''to'', ''for'', ''with'',
                 ''a'', ''an'']"

definition title_case :: "env \<Rightarrow> string \<Rightarrow> string" where
  "title_case e t =
     join_with '' ''
       (map (\<lambda>(i, word). if \<not> List.member exceptions (str_lower e word) \<or> i = 0
                          then str_capitalize e word else str_lower e word)
            (List.enumerate 0 (split_ws t)))"

definition create_audio_filename ::
  "int \<Rightarrow> string \<Rightarrow> int \<Rightarrow> int \<Rightarrow> int \<Rightarrow> int \<Rightarrow> string \<Rightarrow> string" where
  "create_audio_filename sequential_index book_code subbook_num chapter_num paragraph_num
       sentence_num lang =
     format_07d sequential_index @ ''_'' @ book_code @ ''_S'' @ str_int subbook_num @
     ''_C'' @ str_int chapter_num @ ''_P'' @ str_int paragraph_num @
     ''_S'' @ str_int sentence_num @ ''_'' @ lang @ ''.aac''"

text \<open>
  \<^verbatim>\<open>re.split(r'\n\s*\n', text)\<close>: a match starts at a newline after which the run of blanks
  holds another newline, and (the star being greedy) ends with the last newline of that
  run. \<open>blank_gap cs\<close> is the number of characters the match takes after its first newline.
\<close>

definition blank_gap :: "string \<Rightarrow> nat" where
  "blank_gap cs =
     (let ws = takeWhile is_space cs
      in length ws - length (takeWhile (\<lambda>c. c \<noteq> LF) (rev ws)))"

function split_blank_lines :: "string \<Rightarrow> string \<Rightarrow> string list" where
  "split_blank_lines cur [] = [cur]"
| "split_blank_lines cur (c # cs) =
     (if c = LF \<and> List.member (takeWhile is_space cs) LF
      then cur # split_blank_lines [] (drop (blank_gap cs) cs)
      else split_blank_lines (cur @ [c]) cs)"
  by pat_completeness auto
termination
  by (relation "measure (\<lambda>(cur, s). length s)") auto

definition parse_paragraphs :: "string \<Rightarrow> string list" where
  "parse_paragraphs t =
     map strip (filter (\<lambda>p. strip p \<noteq> []) (split_blank_lines [] (strip t)))"

definition parse_sentences :: "env \<Rightarrow> string \<Rightarrow> string list" where
  "parse_sentences e line =
     (let found = map strip (filter (\<lambda>t. strip t \<noteq> []) (nlp e line))
      in if found \<noteq> [] then found else [strip line])"

definition ref_match :: "string \<Rightarrow> string option" where
  "ref_match line = marker_match ''REF:'' line"

text \<open>
  \<^verbatim>\<open>re.search(r'chapter(\d+)\.txt$', name, re.IGNORECASE)\<close>: the first position where the
  name reads \<open>chapter\<close>, digits, \<open>.txt\<close> and ends there (or one newline before its end).
\<close>

definition chapter_num_here :: "string \<Rightarrow> string option" where
  "chapter_num_here s =
     (if starts_with_ci ''chapter'' s then
        (let r = drop 7 s; ds = takeWhile is_digit r; t = dropWhile is_digit r
         in if ds \<noteq> [] \<and> starts_with_ci ''.txt'' t \<and> (drop 4 t = [] \<or> drop 4 t = [LF])
            then Some ds else None)
      else None)"

fun chapter_num_search :: "string \<Rightarrow> string option" where
  "chapter_num_search [] = None"
| "chapter_num_search (c # cs) =
     (case chapter_num_here (c # cs) of
        Some ds \<Rightarrow> Some ds
      | None \<Rightarrow> chapter_num_search cs)"

definition chapter_number_of :: "string \<Rightarrow> int" where
  "chapter_number_of name =
     (case chapter_num_search name of Some ds \<Rightarrow> int_of_digits ds | None \<Rightarrow> 0)"

subsection \<open>Processing one chapter file\<close>

text \<open>
  A chapter file is its path relative to the input directory and what
  \<open>open(...).readlines()\<close> gives for it: \<open>None\<close> when that raises.
\<close>

record chapter_file =
  path_parts :: "string list"
  file_lines :: "string list option"

definition file_name :: "chapter_file \<Rightarrow> string" where
  "file_name f = (if path_parts f = [] then [] else last (path_parts f))"

text \<open>The coordinates that stay fixed while one chapter is processed.\<close>

record coords =
  co_language :: string
  co_book_code :: string
  co_subbook_num :: int
  co_chapter_number :: int

text \<open>
  The innermost loop (\<open>for local_idx, sent in enumerate(sentence_texts, start=1)\<close>):
  \<open>local_idx\<close> is the index of the next sentence of this line.
\<close>

fun add_sentences ::
  "env \<Rightarrow> coords \<Rightarrow> int \<Rightarrow> string \<Rightarrow> int \<Rightarrow> string list \<Rightarrow> run_state \<Rightarrow>
   sentence_dict list \<times> run_state" where
  "add_sentences e co para_index cur_ref local_idx [] st = ([], st)"
| "add_sentences e co para_index cur_ref local_idx (sent # rest) st =
     (let (sentence_id, st1) = draw_uuid e st;
          audio_filename =
            create_audio_filename (counter_value st1) (co_book_code co) (co_subbook_num co)
              (co_chapter_number co) para_index local_idx (co_language co);
          sentence = \<lparr>sentenceID = sentence_id, sentenceIndex = local_idx,
                      globalSentenceIndex = counter_value st1, reference = cur_ref,
                      sentence_text = strip sent, audioFile = audio_filename\<rparr>;
          st2 = st1\<lparr>counter_value := counter_value st1 + 1\<rparr>;
          (more, st3) = add_sentences e co para_index cur_ref (local_idx + 1) rest st2
      in (sentence # more, st3))"

text \<open>
  The loop over the lines of one paragraph. It carries \<open>current_reference\<close>, the
  sentences appended to the paragraph so far and the run state.
\<close>

fun process_lines ::
  "env \<Rightarrow> coords \<Rightarrow> int \<Rightarrow> string list \<Rightarrow> string \<times> sentence_dict list \<times> run_state \<Rightarrow>
   string \<times> sentence_dict list \<times> run_state" where
  "process_lines e co para_index [] acc = acc"
| "process_lines e co para_index (raw # rest) (cur_ref, sents, st) =
     (let line = strip raw in
      if line = [] then process_lines e co para_index rest (cur_ref, sents, st)
      else (case ref_match line of
              Some g \<Rightarrow> process_lines e co para_index rest (strip g, sents, st)
            | None \<Rightarrow>
                (let (new, st') =
                       add_sentences e co para_index cur_ref 1 (parse_sentences e line) st
                 in process_lines e co para_index rest (cur_ref, sents @ new, st'))))"

text \<open>
  The loop over the paragraphs (\<open>enumerate(paragraphs_text, start=1)\<close>): \<open>para_index\<close> is
  the index of the next block. A paragraph is appended only when it has sentences.
\<close>

fun process_paragraphs ::
  "env \<Rightarrow> coords \<Rightarrow> int \<Rightarrow> string list \<Rightarrow> string \<times> paragraph_dict list \<times> run_state \<Rightarrow>
   string \<times> paragraph_dict list \<times> run_state" where
  "process_paragraphs e co para_index [] acc = acc"
| "process_paragraphs e co para_index (para_text # rest) (cur_ref, paras, st) =
     (let (paragraph_id, st1) = draw_uuid e st;
          (cur_ref', sents, st2) =
             process_lines e co para_index (splitlines para_text) (cur_ref, [], st1);
          paragraph = \<lparr>paragraphID = paragraph_id, paragraphIndex = para_index,
                       sentences = sents\<rparr>
      in process_paragraphs e co (para_index + 1) rest
           (cur_ref', if sents \<noteq> [] then paras @ [paragraph] else paras, st2))"

definition process_chapter_file ::
  "env \<Rightarrow> chapter_file \<Rightarrow> string \<Rightarrow> string \<Rightarrow> int \<Rightarrow> run_state \<Rightarrow>
   chapter_dict option \<times> run_state" where
  "process_chapter_file e f lang book_code subbook_num st =
     (case file_lines f of
        None \<Rightarrow> (None, st)
      | Some [] \<Rightarrow> (None, st)
      | Some (first_line # body_lines) \<Rightarrow>
          (let formatted_title = title_case e (strip first_line);
               content = strip (concat body_lines);
               paragraphs_text = parse_paragraphs content;
               chapter_number = chapter_number_of (file_name f);
               (chapter_id, st1) = draw_uuid e st;
               co = \<lparr>co_language = lang, co_book_code = book_code,
                     co_subbook_num = subbook_num, co_chapter_number = chapter_number\<rparr>;
               (cur_ref, paras, st2) =
                  process_paragraphs e co 1 paragraphs_text ([], [], st1)
           in (Some \<lparr>chapterID = chapter_id, language = lang, chapterNumber = chapter_number,
                     chapterTitle = formatted_title, paragraphs = paras\<rparr>, st2)))"

subsection \<open>Processing all chapter files of a book\<close>

text \<open>
  The input directory is a tree of named entries. A regular file carries what
  \<open>readlines\<close> gives for it (\<open>None\<close> when it cannot be read).
\<close>

datatype fs_node = File "string list option" | Dir "(string \<times> fs_node) list"

text \<open>The glob pattern \<^verbatim>\<open>chapter*.txt\<close> on a name (case-sensitive).\<close>

definition glob_chapter :: "string \<Rightarrow> bool" where
  "glob_chapter n = (starts_with ''chapter'' n \<and> ends_with ''.txt'' n \<and> 11 \<le> length n)"

text \<open>
  \<open>base_input_dir.rglob("chapter*.txt")\<close>: every entry below the directory whose name
  fits the pattern. A directory of such a name is found too, and cannot be read as a file.
\<close>

fun rglob :: "string list \<Rightarrow> (string \<times> fs_node) list \<Rightarrow> chapter_file list" where
  "rglob pre [] = []"
| "rglob pre ((n, File c) # es) =
     (if glob_chapter n then [\<lparr>path_parts = pre @ [n], file_lines = c\<rparr>] else [])
     @ rglob pre es"
| "rglob pre ((n, Dir ds) # es) =
     (if glob_chapter n then [\<lparr>path_parts = pre @ [n], file_lines = None\<rparr>] else [])
     @ rglob (pre @ [n]) ds @ rglob pre es"

text \<open>\<^verbatim>\<open>re.match(r'^\d+-', d.name)\<close> on the directories directly below the input directory.\<close>

definition is_subbook_name :: "string \<Rightarrow> bool" where
  "is_subbook_name n = (takeWhile is_digit n \<noteq> [] \<and> starts_with ''-'' (dropWhile is_digit n))"

fun subbook_folders :: "(string \<times> fs_node) list \<Rightarrow> string list" where
  "subbook_folders [] = []"
| "subbook_folders ((n, File c) # es) = subbook_folders es"
| "subbook_folders ((n, Dir ds) # es) =
     (if is_subbook_name n then n # subbook_folders es else subbook_folders es)"

text \<open>
  \<open>get_subbook_info\<close>: \<^verbatim>\<open>re.match(r'^(\d+)-(.+)$', parts[0])\<close> when the relative path has more
  than one part. The group \<^verbatim>\<open>(.+)\<close> holds no newline, and \<^verbatim>\<open>$\<close> also matches before one final
  newline.
\<close>

definition subbook_match :: "string \<Rightarrow> string option" where
  "subbook_match folder =
     (let ds = takeWhile is_digit folder; t = dropWhile is_digit folder in
      if ds \<noteq> [] \<and> starts_with ''-'' t then
        (let r = drop 1 t; body = (if r \<noteq> [] \<and> last r = LF then butlast r else r)
         in if body \<noteq> [] \<and> \<not> List.member body LF then Some ds else None)
      else None)"

definition get_subbook_info :: "chapter_file \<Rightarrow> string \<times> int" where
  "get_subbook_info f =
     (case path_parts f of
        subbook_folder # _ # _ \<Rightarrow>
          (case subbook_match subbook_folder of
             Some ds \<Rightarrow> (subbook_folder, int_of_digits ds)
           | None \<Rightarrow> (''1-Default'', 1))
      | _ \<Rightarrow> (''1-Default'', 1))"

text \<open>
  What a run does to the output directory, in order: the directories it makes and the
  records it hands to \<open>json.dump\<close>. A path is the list of the operands joined below
  \<open>base_output_dir\<close>.
\<close>

datatype fs_event = Mkdir "string list" | Dump "string list" chapter_dict

fun process_files ::
  "env \<Rightarrow> bool \<Rightarrow> string \<Rightarrow> string \<Rightarrow> chapter_file list \<Rightarrow> run_state \<Rightarrow>
   fs_event list \<times> run_state" where
  "process_files e use_default_subbook lang book_code [] st = ([], st)"
| "process_files e use_default_subbook lang book_code (f # rest) st =
     (let (subbook_folder, subbook_num) =
            (if use_default_subbook then (''1-Default'', 1) else get_subbook_info f);
          chapter_number = chapter_number_of (file_name f);
          output_subdir =
            [lang, ''Content'', subbook_folder, ''Chapter'' @ str_int chapter_number];
          (chapter_data, st1) = process_chapter_file e f lang book_code subbook_num st
      in (case chapter_data of
            None \<Rightarrow>
              (let (evs, st2) = process_files e use_default_subbook lang book_code rest st1
               in (Mkdir output_subdir # evs, st2))
          | Some d \<Rightarrow>
              (let output_filename =
                     book_code @ ''_S'' @ str_int subbook_num @ ''_C'' @
                     str_int chapter_number @ ''_'' @ lang @ ''.json'';
                   (evs, st2) = process_files e use_default_subbook lang book_code rest st1
               in (Mkdir output_subdir # Dump (output_subdir @ [output_filename]) d # evs,
                   st2))))"

definition chapter_files_of :: "(string \<times> fs_node) list \<Rightarrow> chapter_file list" where
  "chapter_files_of base_input_dir = sort_key path_parts (rglob [] base_input_dir)"

definition process_all_chapter_files ::
  "env \<Rightarrow> (string \<times> fs_node) list \<Rightarrow> string \<Rightarrow> string \<Rightarrow> fs_event list \<times> run_state" where
  "process_all_chapter_files e base_input_dir lang book_code =
     process_files e (subbook_folders base_input_dir = []) lang book_code
       (chapter_files_of base_input_dir) \<lparr>counter_value = 1, uuid_draws = 0\<rparr>"

subsection \<open>Reading the output\<close>

fun dumped :: "fs_event list \<Rightarrow> chapter_dict list" where
  "dumped [] = []"
| "dumped (Mkdir p # evs) = dumped evs"
| "dumped (Dump p d # evs) = d # dumped evs"

definition chapter_sentences :: "chapter_dict \<Rightarrow> sentence_dict list" where
  "chapter_sentences d = concat (map sentences (paragraphs d))"

definition run_sentences :: "fs_event list \<Rightarrow> sentence_dict list" where
  "run_sentences evs = concat (map chapter_sentences (dumped evs))"

text \<open>The integers \<open>c, c + 1, ...\<close>, \<open>n\<close> of them.\<close>

fun count_up :: "int \<Rightarrow> nat \<Rightarrow> int list" where
  "count_up c 0 = []"
| "count_up c (Suc n) = c # count_up (c + 1) n"

subsection \<open>Reading the input\<close>

text \<open>
  The non-blank lines of a paragraph block, stripped, as the line loop sees them; whether a
  block has a line that is not a reference marker; the blocks and the lines of a chapter
  file; and whether the file can be read and is not empty.
\<close>

definition content_lines :: "string \<Rightarrow> string list" where
  "content_lines t = filter (\<lambda>l. l \<noteq> []) (map strip (splitlines t))"

definition bears_sentences :: "string \<Rightarrow> bool" where
  "bears_sentences t = (filter (\<lambda>l. ref_match l = None) (content_lines t) \<noteq> [])"

definition chapter_blocks :: "chapter_file \<Rightarrow> string list" where
  "chapter_blocks f =
     (case file_lines f of
        Some (first_line # body_lines) \<Rightarrow> parse_paragraphs (strip (concat body_lines))
      | _ \<Rightarrow> [])"

definition chapter_lines :: "chapter_file \<Rightarrow> string list" where
  "chapter_lines f = concat (map content_lines (chapter_blocks f))"

definition readable :: "chapter_file \<Rightarrow> bool" where
  "readable f = (case file_lines f of Some (first_line # body_lines) \<Rightarrow> True | _ \<Rightarrow> False)"

definition chapter_coords :: "chapter_file \<Rightarrow> string \<Rightarrow> string \<Rightarrow> int \<Rightarrow> coords" where
  "chapter_coords f lang book_code subbook_num =
     \<lparr>co_language = lang, co_book_code = book_code, co_subbook_num = subbook_num,
      co_chapter_number = chapter_number_of (file_name f)\<rparr>"

text \<open>
  Every \<open>paragraph_dict\<close> the paragraph loop builds, one for each block, whether or not
  it is appended to the chapter afterwards.
\<close>

fun paragraph_shells ::
  "env \<Rightarrow> coords \<Rightarrow> int \<Rightarrow> string list \<Rightarrow> string \<times> run_state \<Rightarrow> paragraph_dict list" where
  "paragraph_shells e co para_index [] (cur_ref, st) = []"
| "paragraph_shells e co para_index (para_text # rest) (cur_ref, st) =
     (let (paragraph_id, st1) = draw_uuid e st;
          (cur_ref', sents, st2) =
             process_lines e co para_index (splitlines para_text) (cur_ref, [], st1)
      in \<lparr>paragraphID = paragraph_id, paragraphIndex = para_index, sentences = sents\<rparr>
         # paragraph_shells e co (para_index + 1) rest (cur_ref', st2))"

definition chapter_shells ::
  "env \<Rightarrow> chapter_file \<Rightarrow> string \<Rightarrow> string \<Rightarrow> int \<Rightarrow> run_state \<Rightarrow> paragraph_dict list" where
  "chapter_shells e f lang book_code subbook_num st =
     paragraph_shells e (chapter_coords f lang book_code subbook_num) 1 (chapter_blocks f)
       ([], snd (draw_uuid e st))"

text \<open>
  The carry-forward rule as the specification words it, over the non-blank lines of a
  chapter in reading order: a marker line sets the current reference and gives no
  sentence, every other line gives its sentences the current reference.
\<close>

fun carried_refs :: "env \<Rightarrow> string \<Rightarrow> string list \<Rightarrow> string list" where
  "carried_refs e cur [] = []"
| "carried_refs e cur (l # ls) =
     (case ref_match l of
        Some g \<Rightarrow> carried_refs e (strip g) ls
      | None \<Rightarrow> replicate (length (parse_sentences e l)) cur @ carried_refs e cur ls)"

fun ref_after :: "string \<Rightarrow> string list \<Rightarrow> string" where
  "ref_after cur [] = cur"
| "ref_after cur (l # ls) =
     (case ref_match l of Some g \<Rightarrow> ref_after (strip g) ls | None \<Rightarrow> ref_after cur ls)"

definition paragraph_indices :: "chapter_dict option \<Rightarrow> int list" where
  "paragraph_indices r = (case r of None \<Rightarrow> [] | Some d \<Rightarrow> map paragraphIndex (paragraphs d))"

section \<open>The chapter extractor (4-chapter\_subbook\_extraction.py)\<close>

text \<open>
  The output directory is modelled by the files in it, each a path (the directory below
  \<open>output_dir\<close> and the name) with its content, and by the list of the directories the run
  makes. Writing a file replaces the file of that path or adds it.
\<close>

type_synonym out_files = "((string list \<times> string) \<times> string) list"

fun write_file :: "string list \<times> string \<Rightarrow> string \<Rightarrow> out_files \<Rightarrow> out_files" where
  "write_file p c [] = [(p, c)]"
| "write_file p c ((q, d) # rest) =
     (if q = p then (p, c) # rest else (q, d) # write_file p c rest)"

text \<open>\<^verbatim>\<open>re.sub(r'[\\/*?:"<>|]', "", name)\<close>\<close>

definition sanitize_filename :: "string \<Rightarrow> string" where
  "sanitize_filename name =
     filter (\<lambda>c. \<not> List.member [CHR 0x5C, CHR ''/'', CHR ''*'', CHR ''?'', CHR '':'', CHR 0x22,
                                  CHR ''<'', CHR ''>'', CHR ''|''] c) name"

text \<open>The number of entries of the directory that fit \<^verbatim>\<open>chapter*.txt\<close>, plus one.\<close>

definition get_chapter_number :: "string list \<Rightarrow> out_files \<Rightarrow> int" where
  "get_chapter_number chapter_dir fs =
     int (length (filter (\<lambda>((d, n), c). d = chapter_dir \<and> glob_chapter n) fs)) + 1"

definition write_current_chapter ::
  "env \<Rightarrow> string list \<Rightarrow> string \<Rightarrow> string list \<Rightarrow> out_files \<Rightarrow> out_files" where
  "write_current_chapter e subbook_dir chapter_title lines fs =
     (if chapter_title = [] \<or> lines = [] then fs
      else let chapter_number = get_chapter_number subbook_dir fs;
               filename = ''chapter'' @ str_int chapter_number @ ''.txt''
           in write_file (subbook_dir, filename)
                (title_case e chapter_title @ [LF, LF] @ strip (join_with [LF] lines) @ [LF])
                fs)"

text \<open>The local variables of \<open>extract_chapters\<close> and the output directory.\<close>

record extract_state =
  current_subbook :: "string option"
  current_subbook_index :: int
  current_chapter :: "string option"
  chapter_lines_acc :: "string list"
  subbook_detected :: bool
  current_output_dir :: "string list"
  made_dirs :: "string list list"
  files :: out_files

text \<open>The body of the loop over the lines of the book text.\<close>

definition extract_step :: "env \<Rightarrow> extract_state \<Rightarrow> string \<Rightarrow> extract_state" where
  "extract_step e st line =
     (let stripped_line = strip line in
      case marker_match ''SUBBOOK:'' stripped_line of
        Some g \<Rightarrow>
          (let st1 = (case current_chapter st of
                        Some title \<Rightarrow>
                          if chapter_lines_acc st \<noteq> []
                          then st\<lparr>files := write_current_chapter e (current_output_dir st) title
                                              (chapter_lines_acc st) (files st),
                                  chapter_lines_acc := [], current_chapter := None\<rparr>
                          else st
                      | None \<Rightarrow> st);
               subbook_title = strip g;
               index = current_subbook_index st1 + 1;
               subbook_dir_name = str_int index @ ''-'' @ sanitize_filename subbook_title
           in st1\<lparr>current_subbook := Some subbook_title, current_subbook_index := index,
                   subbook_detected := True, current_output_dir := [subbook_dir_name],
                   made_dirs := made_dirs st1 @ [[subbook_dir_name]]\<rparr>)
      | None \<Rightarrow>
          (case marker_match ''CHAPTER:'' stripped_line of
             Some g \<Rightarrow>
               (let st1 = (case current_chapter st of
                             Some title \<Rightarrow>
                               if chapter_lines_acc st \<noteq> []
                               then st\<lparr>files := write_current_chapter e (current_output_dir st)
                                                   title (chapter_lines_acc st) (files st),
                                       chapter_lines_acc := []\<rparr>
                               else st
                           | None \<Rightarrow> st)
                in st1\<lparr>current_chapter := Some (strip g)\<rparr>)
           | None \<Rightarrow>
               (case current_chapter st of
                  Some title \<Rightarrow> st\<lparr>chapter_lines_acc := chapter_lines_acc st @ [line]\<rparr>
                | None \<Rightarrow> st)))"

definition extract_start :: "out_files \<Rightarrow> extract_state" where
  "extract_start fs =
     \<lparr>current_subbook = None, current_subbook_index = 0, current_chapter = None,
      chapter_lines_acc = [], subbook_detected = False, current_output_dir = [],
      made_dirs = [[]], files = fs\<rparr>"

text \<open>After the loop: the chapter in progress is written when it has lines.\<close>

definition extract_finish :: "env \<Rightarrow> extract_state \<Rightarrow> bool \<times> out_files \<times> string list list" where
  "extract_finish e st =
     (let fs = (case current_chapter st of
                  Some title \<Rightarrow>
                    if chapter_lines_acc st \<noteq> []
                    then write_current_chapter e (current_output_dir st) title
                           (chapter_lines_acc st) (files st)
                    else files st
                | None \<Rightarrow> files st)
      in (subbook_detected st, fs, made_dirs st))"

definition extract_lines ::
  "env \<Rightarrow> string list \<Rightarrow> out_files \<Rightarrow> bool \<times> out_files \<times> string list list" where
  "extract_lines e lines fs = extract_finish e (foldl (extract_step e) (extract_start fs) lines)"

definition extract_chapters ::
  "env \<Rightarrow> string \<Rightarrow> out_files \<Rightarrow> bool \<times> out_files \<times> string list list" where
  "extract_chapters e book_text fs = extract_lines e (splitlines book_text) fs"

text \<open>
  A line the loop takes as a subbook marker, and one it takes as a chapter marker (the
  subbook pattern is tried first).
\<close>

definition is_subbook_marker :: "string \<Rightarrow> bool" where
  "is_subbook_marker line = (marker_match ''SUBBOOK:'' (strip line) \<noteq> None)"

definition is_chapter_marker :: "string \<Rightarrow> bool" where
  "is_chapter_marker line =
     (marker_match ''SUBBOOK:'' (strip line) = None \<and>
      marker_match ''CHAPTER:'' (strip line) \<noteq> None)"

text \<open>No chapter is in progress; and: lines are held only while a chapter is in progress.\<close>

definition idle :: "extract_state \<Rightarrow> bool" where
  "idle st = (current_chapter st = None \<and> chapter_lines_acc st = [])"

definition buffer_ok :: "extract_state \<Rightarrow> bool" where
  "buffer_ok st = (case current_chapter st of None \<Rightarrow> chapter_lines_acc st = [] | Some t \<Rightarrow> True)"

section \<open>The translator (7-translator.py)\<close>

text \<open>
  What the translator takes from outside: the table \<open>language_map\<close> from language codes to
  language names and the translation service. \<open>translate_text\<close> gives what the n-th call of
  the function of that name returns for a text and a language name: the stripped answer,
  or the empty string when the call fails.
\<close>

record tenv =
  language_map :: "string \<Rightarrow> string option"
  translate_text :: "nat \<Rightarrow> string \<Rightarrow> string \<Rightarrow> string"

text \<open>
  \<^verbatim>\<open>re.sub(rf"_{re.escape(native)}EXT$", f"_{target}EXT", s)\<close> for the extensions \<open>.aac\<close> and
  \<open>.json\<close>. The pattern matches at the end of \<open>s\<close>, or before one final newline. The
  replacement is a template in which \<open>re\<close> expands backslash escapes: the model covers the
  targets without a backslash and gives \<open>None\<close> for the others.
\<close>

definition re_sub_suffix :: "string \<Rightarrow> string \<Rightarrow> string \<Rightarrow> string \<Rightarrow> string option" where
  "re_sub_suffix native target ext s =
     (if List.member target (CHR 0x5C) then None
      else let pat = ''_'' @ native @ ext; rep = ''_'' @ target @ ext in
        if ends_with pat s then Some (take (length s - length pat) s @ rep)
        else if ends_with (pat @ [LF]) s
        then Some (take (length s - length pat - 1) s @ rep @ [LF])
        else Some s)"

text \<open>
  The body of \<open>process_sentence\<close> on the fields of one sentence: the sentence as it is
  left, and the number of calls of the service made so far. The text of a sentence is a
  string, as the segmentation engine writes it, so the branch for a text that is a
  dictionary is not taken.
\<close>

definition process_sentence_fields ::
  "tenv \<Rightarrow> string \<Rightarrow> string \<Rightarrow> nat \<Rightarrow> sentence_dict \<Rightarrow> (sentence_dict \<times> nat) option" where
  "process_sentence_fields te native_language_code target_language calls sentence =
     (let native_text = strip (sentence_text sentence) in
      if native_text = [] then Some (sentence, calls)
      else (case language_map te target_language of
              None \<Rightarrow> Some (sentence, calls)
            | Some target_language_name \<Rightarrow>
                if target_language_name = [] then Some (sentence, calls)
                else (let translation = translate_text te calls native_text target_language_name
                      in case re_sub_suffix native_language_code target_language ''.aac''
                                (audioFile sentence) of
                           None \<Rightarrow> None
                         | Some updated_audio \<Rightarrow>
                             Some (sentence\<lparr>sentence_text := translation,
                                             audioFile := updated_audio\<rparr>, Suc calls))))"

text \<open>The body of the second loop of \<open>process_json_file\<close> on one sentence.\<close>

definition update_audio_fields :: "string \<Rightarrow> string \<Rightarrow> sentence_dict \<Rightarrow> sentence_dict option" where
  "update_audio_fields native_language_code target_language sentence =
     (case re_sub_suffix native_language_code target_language ''.aac'' (audioFile sentence) of
        None \<Rightarrow> None
      | Some updated_audio \<Rightarrow> Some (sentence\<lparr>audioFile := updated_audio\<rparr>))"

subsection \<open>The objects in memory\<close>

text \<open>
  The dictionaries of a content tree are objects in a store, one region for each kind,
  addressed by their position. A chapter object holds the addresses of its paragraph
  objects, a paragraph object the addresses of its sentence objects. The store also
  counts the calls of the translation service.
\<close>

record paragraph_obj =
  obj_paragraphID :: string
  obj_paragraphIndex :: int
  obj_sentences :: "nat list"

record chapter_obj =
  obj_chapterID :: string
  obj_language :: string
  obj_chapterNumber :: int
  obj_chapterTitle :: string
  obj_paragraphs :: "nat list"

record store =
  chapter_objs :: "chapter_obj list"
  paragraph_objs :: "paragraph_obj list"
  sentence_objs :: "sentence_dict list"
  translate_calls :: nat

text \<open>\<open>json.dumps\<close>: the tree below a chapter object as a value. \<open>None\<close> for a dangling address.\<close>

definition read_sentences :: "store \<Rightarrow> nat list \<Rightarrow> sentence_dict list option" where
  "read_sentences st sas =
     (if list_all (\<lambda>a. a < length (sentence_objs st)) sas
      then Some (map (\<lambda>a. sentence_objs st ! a) sas) else None)"

fun read_paragraphs :: "store \<Rightarrow> nat list \<Rightarrow> paragraph_dict list option" where
  "read_paragraphs st [] = Some []"
| "read_paragraphs st (pa # pas) =
     (if pa < length (paragraph_objs st) then
        (case read_sentences st (obj_sentences (paragraph_objs st ! pa)) of
           None \<Rightarrow> None
         | Some ss \<Rightarrow>
             (case read_paragraphs st pas of
                None \<Rightarrow> None
              | Some ps \<Rightarrow>
                  Some (\<lparr>paragraphID = obj_paragraphID (paragraph_objs st ! pa),
                         paragraphIndex = obj_paragraphIndex (paragraph_objs st ! pa),
                         sentences = ss\<rparr> # ps)))
      else None)"

definition json_dumps :: "store \<Rightarrow> nat \<Rightarrow> chapter_dict option" where
  "json_dumps st c =
     (if c < length (chapter_objs st) then
        (case read_paragraphs st (obj_paragraphs (chapter_objs st ! c)) of
           None \<Rightarrow> None
         | Some ps \<Rightarrow>
             Some \<lparr>chapterID = obj_chapterID (chapter_objs st ! c),
                   language = obj_language (chapter_objs st ! c),
                   chapterNumber = obj_chapterNumber (chapter_objs st ! c),
                   chapterTitle = obj_chapterTitle (chapter_objs st ! c),
                   paragraphs = ps\<rparr>)
      else None)"

text \<open>
  \<open>json.loads\<close> (and \<open>json.load\<close>): new objects for the whole tree, after the objects the
  store holds already. The paragraph objects get the addresses of their sentences in order.
\<close>

fun paragraph_objects :: "nat \<Rightarrow> paragraph_dict list \<Rightarrow> paragraph_obj list" where
  "paragraph_objects ns [] = []"
| "paragraph_objects ns (p # ps) =
     \<lparr>obj_paragraphID = paragraphID p, obj_paragraphIndex = paragraphIndex p,
      obj_sentences = [ns..<ns + length (sentences p)]\<rparr>
     # paragraph_objects (ns + length (sentences p)) ps"

definition json_loads :: "store \<Rightarrow> chapter_dict \<Rightarrow> store \<times> nat" where
  "json_loads st v =
     (st\<lparr>chapter_objs := chapter_objs st @
            [\<lparr>obj_chapterID = chapterID v, obj_language = language v,
              obj_chapterNumber = chapterNumber v, obj_chapterTitle = chapterTitle v,
              obj_paragraphs = [length (paragraph_objs st)..<
                                length (paragraph_objs st) + length (paragraphs v)]\<rparr>],
          paragraph_objs := paragraph_objs st @
            paragraph_objects (length (sentence_objs st)) (paragraphs v),
          sentence_objs := sentence_objs st @ concat (map sentences (paragraphs v))\<rparr>,
      length (chapter_objs st))"

subsection \<open>The functions of the translator on the store\<close>

text \<open>
  A function that works on one sentence dictionary reads the fields of the object at the
  address it is given and writes them back: \<open>on_sentence body\<close>.
\<close>

definition on_sentence ::
  "(nat \<Rightarrow> sentence_dict \<Rightarrow> (sentence_dict \<times> nat) option) \<Rightarrow> store \<Rightarrow> nat \<Rightarrow> store option" where
  "on_sentence body st a =
     (if a < length (sentence_objs st) then
        (case body (translate_calls st) (sentence_objs st ! a) of
           None \<Rightarrow> None
         | Some (sentence, calls) \<Rightarrow>
             Some (st\<lparr>sentence_objs := (sentence_objs st)[a := sentence],
                      translate_calls := calls\<rparr>))
      else None)"

definition process_sentence ::
  "tenv \<Rightarrow> string \<Rightarrow> string \<Rightarrow> store \<Rightarrow> nat \<Rightarrow> store option" where
  "process_sentence te native_language_code target_language =
     on_sentence (process_sentence_fields te native_language_code target_language)"

definition update_audio_body ::
  "string \<Rightarrow> string \<Rightarrow> nat \<Rightarrow> sentence_dict \<Rightarrow> (sentence_dict \<times> nat) option" where
  "update_audio_body native_language_code target_language calls sentence =
     (case update_audio_fields native_language_code target_language sentence of
        None \<Rightarrow> None
      | Some updated \<Rightarrow> Some (updated, calls))"

definition update_audio_file :: "string \<Rightarrow> string \<Rightarrow> store \<Rightarrow> nat \<Rightarrow> store option" where
  "update_audio_file native_language_code target_language =
     on_sentence (update_audio_body native_language_code target_language)"

text \<open>
  The two nested loops \<open>for para in content.get("paragraphs", [])\<close>,
  \<open>for sentence in para.get("sentences", [])\<close>, which the translator runs twice with
  different bodies.
\<close>

fun each_sentence :: "(store \<Rightarrow> nat \<Rightarrow> store option) \<Rightarrow> store \<Rightarrow> nat list \<Rightarrow> store option" where
  "each_sentence body st [] = Some st"
| "each_sentence body st (a # rest) =
     (case body st a of
        None \<Rightarrow> None
      | Some st1 \<Rightarrow> each_sentence body st1 rest)"

fun each_paragraph :: "(store \<Rightarrow> nat \<Rightarrow> store option) \<Rightarrow> store \<Rightarrow> nat list \<Rightarrow> store option" where
  "each_paragraph body st [] = Some st"
| "each_paragraph body st (pa # rest) =
     (if pa < length (paragraph_objs st) then
        (case each_sentence body st (obj_sentences (paragraph_objs st ! pa)) of
           None \<Rightarrow> None
         | Some st1 \<Rightarrow> each_paragraph body st1 rest)
      else None)"

definition each_content_sentence ::
  "(store \<Rightarrow> nat \<Rightarrow> store option) \<Rightarrow> store \<Rightarrow> nat \<Rightarrow> store option" where
  "each_content_sentence body st content =
     (if content < length (chapter_objs st)
      then each_paragraph body st (obj_paragraphs (chapter_objs st ! content))
      else None)"

definition translate_content ::
  "tenv \<Rightarrow> string \<Rightarrow> string \<Rightarrow> store \<Rightarrow> nat \<Rightarrow> store option" where
  "translate_content te native_language_code target_language st content =
     each_content_sentence (process_sentence te native_language_code target_language) st content"

text \<open>The second loop of \<open>process_json_file\<close> (\<open># Update the audioFile fields\<close>).\<close>

definition update_audio_files :: "string \<Rightarrow> string \<Rightarrow> store \<Rightarrow> nat \<Rightarrow> store option" where
  "update_audio_files native_language_code target_language st content =
     each_content_sentence (update_audio_file native_language_code target_language) st content"

text \<open>\<open>Path.stem\<close> of a file name, and the name of the output file.\<close>

definition path_stem :: "string \<Rightarrow> string" where
  "path_stem name =
     (let after = takeWhile (\<lambda>c. c \<noteq> CHR ''.'') (rev name);
          i = length name - length after - 1
      in if List.member name (CHR ''.'') \<and> 0 < i \<and> after \<noteq> [] then take i name else name)"

definition new_filename :: "string \<Rightarrow> string \<Rightarrow> string \<Rightarrow> string option" where
  "new_filename native_language_code target_language name =
     (case re_sub_suffix native_language_code target_language ''.json'' name of
        None \<Rightarrow> None
      | Some n \<Rightarrow>
          Some (if n = name then path_stem name @ ''_'' @ target_language @ ''.json'' else n))"

text \<open>
  The loop of \<open>process_json_file\<close> over the target languages. \<open>native_content\<close> is the
  address of the native record. The loop gives the store it leaves, the addresses of the
  records \<open>translated_content\<close> it made, and the paths and records it handed to
  \<open>json.dump\<close>.
\<close>

definition set_language :: "store \<Rightarrow> nat \<Rightarrow> string \<Rightarrow> store" where
  "set_language st c target_language =
     st\<lparr>chapter_objs := (chapter_objs st)[c := (chapter_objs st ! c)\<lparr>obj_language := target_language\<rparr>]\<rparr>"

definition output_path :: "string list \<Rightarrow> string \<Rightarrow> string \<Rightarrow> string list option" where
  "output_path rel_path native_language_code target_language =
     (case new_filename native_language_code target_language
             (if rel_path = [] then [] else last rel_path) of
        None \<Rightarrow> None
      | Some name \<Rightarrow> Some ([target_language, ''Content''] @ butlast rel_path @ [name]))"

fun translate_targets ::
  "tenv \<Rightarrow> string list \<Rightarrow> string \<Rightarrow> nat \<Rightarrow> store \<Rightarrow> string list \<Rightarrow>
   (store \<times> nat list \<times> (string list \<times> chapter_dict) list) option" where
  "translate_targets te rel_path native_language_code native_content st [] = Some (st, [], [])"
| "translate_targets te rel_path native_language_code native_content st (target_language # rest) =
     (case json_dumps st native_content of
        None \<Rightarrow> None
      | Some serialized \<Rightarrow>
          (let (st1, translated_content) = json_loads st serialized;
               st2 = set_language st1 translated_content target_language
           in case translate_content te native_language_code target_language st2
                     translated_content of
                None \<Rightarrow> None
              | Some st3 \<Rightarrow>
                  (case update_audio_files native_language_code target_language st3
                          translated_content of
                     None \<Rightarrow> None
                   | Some st4 \<Rightarrow>
                       (case output_path rel_path native_language_code target_language of
                          None \<Rightarrow> None
                        | Some full_output_file \<Rightarrow>
                            (case json_dumps st4 translated_content of
                               None \<Rightarrow> None
                             | Some out \<Rightarrow>
                                 (case translate_targets te rel_path native_language_code
                                         native_content st4 rest of
                                    None \<Rightarrow> None
                                  | Some (st5, copies, outs) \<Rightarrow>
                                      Some (st5, translated_content # copies,
                                            (full_output_file, out) # outs)))))))"

text \<open>
  \<open>process_json_file\<close>: \<open>loaded\<close> is what \<open>json.load\<close> reads from the native file,
  \<open>None\<close> when that raises (the function then returns at once).
\<close>

record translation_run =
  run_store :: store
  native_content_at :: "nat option"
  translated_content_at :: "nat list"
  written :: "(string list \<times> chapter_dict) list"

definition process_json_file ::
  "tenv \<Rightarrow> store \<Rightarrow> chapter_dict option \<Rightarrow> string list \<Rightarrow> string \<Rightarrow> string list \<Rightarrow>
   translation_run option" where
  "process_json_file te st loaded rel_path native_language_code target_language_codes =
     (case loaded of
        None \<Rightarrow> Some \<lparr>run_store = st, native_content_at = None, translated_content_at = [],
                       written = []\<rparr>
      | Some v \<Rightarrow>
          (let (st1, native_content) = json_loads st v
           in case translate_targets te rel_path native_language_code native_content st1
                     target_language_codes of
                None \<Rightarrow> None
              | Some (st2, copies, outs) \<Rightarrow>
                  Some \<lparr>run_store = st2, native_content_at = Some native_content,
                        translated_content_at = copies, written = outs\<rparr>))"

subsection \<open>The translation as a function of the native record\<close>

text \<open>
  The same two passes on values: a body applied to the sentences of a record in reading
  order, the number of service calls handed on from each sentence to the next.
\<close>

fun map_sentences ::
  "(nat \<Rightarrow> sentence_dict \<Rightarrow> (sentence_dict \<times> nat) option) \<Rightarrow> nat \<Rightarrow> sentence_dict list \<Rightarrow>
   (sentence_dict list \<times> nat) option" where
  "map_sentences body calls [] = Some ([], calls)"
| "map_sentences body calls (s # rest) =
     (case body calls s of
        None \<Rightarrow> None
      | Some (s1, calls1) \<Rightarrow>
          (case map_sentences body calls1 rest of
             None \<Rightarrow> None
           | Some (rest1, calls2) \<Rightarrow> Some (s1 # rest1, calls2)))"

fun map_paragraphs ::
  "(nat \<Rightarrow> sentence_dict \<Rightarrow> (sentence_dict \<times> nat) option) \<Rightarrow> nat \<Rightarrow> paragraph_dict list \<Rightarrow>
   (paragraph_dict list \<times> nat) option" where
  "map_paragraphs body calls [] = Some ([], calls)"
| "map_paragraphs body calls (p # rest) =
     (case map_sentences body calls (sentences p) of
        None \<Rightarrow> None
      | Some (ss, calls1) \<Rightarrow>
          (case map_paragraphs body calls1 rest of
             None \<Rightarrow> None
           | Some (rest1, calls2) \<Rightarrow> Some (p\<lparr>sentences := ss\<rparr> # rest1, calls2)))"

definition translated_record ::
  "tenv \<Rightarrow> string \<Rightarrow> string \<Rightarrow> nat \<Rightarrow> chapter_dict \<Rightarrow> (chapter_dict \<times> nat) option" where
  "translated_record te native_language_code target_language calls v =
     (case map_paragraphs (process_sentence_fields te native_language_code target_language)
             calls (paragraphs v) of
        None \<Rightarrow> None
      | Some (ps1, calls1) \<Rightarrow>
          (case map_paragraphs (update_audio_body native_language_code target_language)
                  calls1 ps1 of
             None \<Rightarrow> None
           | Some (ps2, calls2) \<Rightarrow>
               Some (v\<lparr>language := target_language, paragraphs := ps2\<rparr>, calls2)))"

fun translated_records ::
  "tenv \<Rightarrow> string \<Rightarrow> nat \<Rightarrow> chapter_dict \<Rightarrow> string list \<Rightarrow> chapter_dict list option" where
  "translated_records te native_language_code calls v [] = Some []"
| "translated_records te native_language_code calls v (target_language # rest) =
     (case translated_record te native_language_code target_language calls v of
        None \<Rightarrow> None
      | Some (out, calls1) \<Rightarrow>
          (case translated_records te native_language_code calls1 v rest of
             None \<Rightarrow> None
           | Some outs \<Rightarrow> Some (out # outs)))"

text \<open>The addresses of the paragraph objects and of the sentence objects of a tree.\<close>

definition paragraph_addrs :: "store \<Rightarrow> nat \<Rightarrow> nat list" where
  "paragraph_addrs st c = obj_paragraphs (chapter_objs st ! c)"

definition sentence_addrs :: "store \<Rightarrow> nat \<Rightarrow> nat list" where
  "sentence_addrs st c =
     concat (map (\<lambda>pa. obj_sentences (paragraph_objs st ! pa)) (paragraph_addrs st c))"

text \<open>Every object of the first store is in the second, at its address, as it was.\<close>

definition kept :: "store \<Rightarrow> store \<Rightarrow> bool" where
  "kept st st' =
     (take (length (chapter_objs st)) (chapter_objs st') = chapter_objs st \<and>
      take (length (paragraph_objs st)) (paragraph_objs st') = paragraph_objs st \<and>
      take (length (sentence_objs st)) (sentence_objs st') = sentence_objs st)"

text \<open>One pass of the loop over the target languages, from a store \<open>st\<close>.\<close>

definition copy_result :: "tenv \<Rightarrow> string \<Rightarrow> string \<Rightarrow> store \<Rightarrow> chapter_dict \<Rightarrow> store option" where
  "copy_result te n t st v =
     (case translate_content te n t
             (set_language (fst (json_loads st v)) (snd (json_loads st v)) t)
             (snd (json_loads st v)) of
        None \<Rightarrow> None
      | Some st3 \<Rightarrow> update_audio_files n t st3 (snd (json_loads st v)))"

text \<open>The address blocks \<open>[b, b + m)\<close>, \<open>[b + m, b + 2m)\<close>, ..., \<open>k\<close> of them.\<close>

fun blocks :: "nat \<Rightarrow> nat \<Rightarrow> nat \<Rightarrow> nat list list" where
  "blocks b m 0 = []"
| "blocks b m (Suc k) = [b..<b + m] # blocks (b + m) m k"

definition no_backslash :: "string \<Rightarrow> bool" where
  "no_backslash t = (\<not> List.member t (CHR 0x5C))"

text \<open>
  What the two loop bodies make of one sentence of the native record, when the first one
  runs as call number \<open>k\<close> of the service.
\<close>

definition translated_sentence ::
  "tenv \<Rightarrow> string \<Rightarrow> string \<Rightarrow> nat \<Rightarrow> sentence_dict \<Rightarrow> sentence_dict option" where
  "translated_sentence te native_language_code target_language k s =
     (case process_sentence_fields te native_language_code target_language k s of
        None \<Rightarrow> None
      | Some (s1, k1) \<Rightarrow> update_audio_fields native_language_code target_language s1)"

section \<open>Sample inputs\<close>

text \<open>A sample environment for concrete runs: a splitter that ends a sentence at a period.\<close>

fun split_after_period :: "string \<Rightarrow> string \<Rightarrow> string list" where
  "split_after_period cur [] = (if cur = [] then [] else [cur])"
| "split_after_period cur (c # cs) =
     (if c = CHR ''.'' then (cur @ [c]) # split_after_period [] cs
      else split_after_period (cur @ [c]) cs)"

definition ascii_capitalize :: "string \<Rightarrow> string" where
  "ascii_capitalize w =
     (case w of
        [] \<Rightarrow> []
      | c # cs \<Rightarrow>
          (if 97 \<le> (of_char c :: nat) \<and> (of_char c :: nat) \<le> 122
           then char_of ((of_char c :: nat) - 32) else c) # map fold_case cs)"

definition sample_env :: env where
  "sample_env = \<lparr>nlp = split_after_period [], uuid4 = (\<lambda>n. ''id-'' @ digits n),
                  str_capitalize = ascii_capitalize, str_lower = map fold_case\<rparr>"

definition sample_intro_1 :: "string list" where
  "sample_intro_1 =
     [''the first book\<newline>'', ''\<newline>'', ''<!-- REF: 1:1 -->\<newline>'', ''\<newline>'',
      ''Hello world. Second sentence.\<newline>'', ''\<newline>'', ''<!-- REF: 1:2 -->\<newline>'',
      ''Third one here.\<newline>'']"

definition sample_body_1 :: "string list" where
  "sample_body_1 = [''next\<newline>'', ''\<newline>'', ''No marker here.\<newline>'']"

definition sample_book :: "(string \<times> fs_node) list" where
  "sample_book =
     [(''2-Body'', Dir [(''chapter1.txt'', File (Some sample_body_1))]),
      (''1-Intro'', Dir [(''chapter2.txt'', File None),
                         (''chapter1.txt'', File (Some sample_intro_1))]),
      (''notes.md'', File (Some [''draft\<newline>'']))]"

definition sample_flat :: "(string \<times> fs_node) list" where
  "sample_flat =
     [(''chapter2.txt'', File (Some [''two\<newline>'', ''\<newline>'', ''Second chapter.\<newline>''])),
      (''chapter10.txt'', File (Some [''ten\<newline>'', ''\<newline>'', ''Tenth chapter.\<newline>'']))]"

definition sample_chapter :: chapter_file where
  "sample_chapter = \<lparr>path_parts = [''1-Intro'', ''chapter1.txt''], file_lines = Some sample_intro_1\<rparr>"

definition sample_start :: run_state where
  "sample_start = \<lparr>counter_value = 1, uuid_draws = 0\<rparr>"

definition sample_plain :: chapter_file where
  "sample_plain = \<lparr>path_parts = [''2-Body'', ''chapter1.txt''], file_lines = Some sample_body_1\<rparr>"

definition sample_unreadable :: chapter_file where
  "sample_unreadable = \<lparr>path_parts = [''1-Intro'', ''chapter2.txt''], file_lines = None\<rparr>"

definition sample_empty :: chapter_file where
  "sample_empty = \<lparr>path_parts = [''1-Intro'', ''chapter3.txt''], file_lines = Some []\<rparr>"

definition sample_text :: string where
  "sample_text = ''Preface line\<newline><!-- SUBBOOK: Part One -->\<newline>stray\<newline><!-- CHAPTER: the empty one -->\<newline><!-- CHAPTER: the golden bird -->\<newline>Once upon a time.\<newline>\<newline>The end.\<newline><!-- CHAPTER: last -->\<newline>''"

definition sample_stray_text :: string where
  "sample_stray_text = ''<!-- CHAPTER: alpha -->\<newline><!-- SUBBOOK: Part One -->\<newline>stray\<newline><!-- CHAPTER: beta -->\<newline>body\<newline>''"

definition sample_lines :: "string list" where
  "sample_lines =
     [''Preface line'', ''<!-- SUBBOOK: Part One -->'', ''stray'',
      ''<!-- CHAPTER: the empty one -->'', ''<!-- CHAPTER: the golden bird -->'',
      ''Once upon a time.'', [], ''The end.'', ''<!-- CHAPTER: last -->'']"

definition sample_tenv :: tenv where
  "sample_tenv =
     \<lparr>language_map = map_of [(''es-ES'', ''Spanish''), (''fr-FR'', ''French'')],
      translate_text = (\<lambda>n t name. ''['' @ name @ '' #'' @ digits n @ ''] '' @ t)\<rparr>"

definition empty_store :: store where
  "empty_store = \<lparr>chapter_objs = [], paragraph_objs = [], sentence_objs = [], translate_calls = 0\<rparr>"

definition sample_native :: chapter_dict where
  "sample_native =
     \<lparr>chapterID = ''c-1'', language = ''en-US'', chapterNumber = 1, chapterTitle = ''One'',
      paragraphs =
        [\<lparr>paragraphID = ''p-1'', paragraphIndex = 1,
          sentences =
            [\<lparr>sentenceID = ''s-1'', sentenceIndex = 1, globalSentenceIndex = 1, reference = [],
              sentence_text = ''Hello world.'',
              audioFile = ''0000001_BOOKM_S1_C1_P1_S1_en-US.aac''\<rparr>,
             \<lparr>sentenceID = ''s-2'', sentenceIndex = 2, globalSentenceIndex = 2, reference = [],
              sentence_text = ''  '',
              audioFile = ''0000002_BOOKM_S1_C1_P1_S2_en-US.aac''\<rparr>]\<rparr>,
         \<lparr>paragraphID = ''p-2'', paragraphIndex = 2,
          sentences =
            [\<lparr>sentenceID = ''s-3'', sentenceIndex = 1, globalSentenceIndex = 3, reference = [],
              sentence_text = ''Third one here.'',
              audioFile = ''0000003_BOOKM_S1_C1_P2_S1_en-US.aac''\<rparr>]\<rparr>]\<rparr>"

definition sample_rel_path :: "string list" where
  "sample_rel_path = [''1-Default'', ''Chapter1'', ''BOOKM_S1_C1_en-US.json'']"

definition sample_run :: translation_run where
  "sample_run =
     the (process_json_file sample_tenv empty_store (Some sample_native) sample_rel_path
            ''en-US'' [''es-ES'', ''de-DE''])"

definition sample_blank :: sentence_dict where
  "sample_blank =
     \<lparr>sentenceID = ''s-2'', sentenceIndex = 2, globalSentenceIndex = 2, reference = [],
      sentence_text = ''  '', audioFile = ''0000002_BOOKM_S1_C1_P1_S2_en-US.aac''\<rparr>"

definition sample_loaded :: store where
  "sample_loaded = fst (json_loads empty_store sample_native)"

section \<open>Properties of the segmentation engine\<close>

subsection \<open>The global sentence counter\<close>

lemma length_count_up [simp]: "length (count_up c n) = n"
  by (induction n arbitrary: c) auto

lemma count_up_add: "count_up c (m + n) = count_up c m @ count_up (c + int m) n"
  by (induction m arbitrary: c) (auto simp: algebra_simps)

lemma count_up_upto: "count_up c n = [c..c + int n - 1]"
proof (induction n arbitrary: c)
  case 0
  then show ?case by simp
next
  case (Suc n)
  have "[c..c + int (Suc n) - 1] = c # [c + 1..c + int (Suc n) - 1]"
    by (rule upto_rec1) simp
  with Suc show ?case by (simp add: algebra_simps)
qed

lemma add_sentences_length:
  "length (fst (add_sentences e co p r k sents st)) = length sents"
  by (induction sents arbitrary: k st) (auto simp: Let_def split_beta draw_uuid_def)

lemma add_sentences_indices:
  "map globalSentenceIndex (fst (add_sentences e co p r k sents st)) =
     count_up (counter_value st) (length sents)"
  by (induction sents arbitrary: k st) (auto simp: Let_def split_beta draw_uuid_def)

lemma add_sentences_counter:
  "counter_value (snd (add_sentences e co p r k sents st)) =
     counter_value st + int (length sents)"
  by (induction sents arbitrary: k st) (auto simp: Let_def split_beta draw_uuid_def)

lemma process_lines_indices:
  "\<exists>new. fst (snd (process_lines e co p ls (r, sents, st))) = sents @ new \<and>
         map globalSentenceIndex new = count_up (counter_value st) (length new) \<and>
         counter_value (snd (snd (process_lines e co p ls (r, sents, st)))) =
           counter_value st + int (length new)"
proof (induction ls arbitrary: r sents st)
  case Nil
  show ?case by simp
next
  case (Cons raw rest)
  show ?case
  proof (cases "strip raw = []")
    case True
    with Cons.IH [of r sents st] show ?thesis by simp
  next
    case False
    show ?thesis
    proof (cases "ref_match (strip raw)")
      case (Some g)
      with False Cons.IH [of "strip g" sents st] show ?thesis by simp
    next
      case None
      define res where "res = add_sentences e co p r 1 (parse_sentences e (strip raw)) st"
      define new1 where "new1 = fst res"
      define st1 where "st1 = snd res"
      have step: "process_lines e co p (raw # rest) (r, sents, st) =
                  process_lines e co p rest (r, sents @ new1, st1)"
        using False None by (simp add: Let_def split_beta res_def new1_def st1_def)
      have i1: "map globalSentenceIndex new1 = count_up (counter_value st) (length new1)"
        unfolding new1_def res_def by (simp add: add_sentences_indices add_sentences_length)
      have c1: "counter_value st1 = counter_value st + int (length new1)"
        unfolding new1_def st1_def res_def
        by (simp add: add_sentences_counter add_sentences_length)
      from Cons.IH [of r "sents @ new1" st1] obtain new2 where
        a: "fst (snd (process_lines e co p rest (r, sents @ new1, st1))) = (sents @ new1) @ new2"
        and b: "map globalSentenceIndex new2 = count_up (counter_value st1) (length new2)"
        and c: "counter_value (snd (snd (process_lines e co p rest (r, sents @ new1, st1)))) =
                  counter_value st1 + int (length new2)"
        by blast
      show ?thesis
        unfolding step
        by (rule exI [of _ "new1 @ new2"]) (simp add: a b c i1 c1 count_up_add)
    qed
  qed
qed

lemma process_paragraphs_indices:
  "\<exists>new. fst (snd (process_paragraphs e co p ts (r, paras, st))) = paras @ new \<and>
         map globalSentenceIndex (concat (map sentences new)) =
           count_up (counter_value st) (length (concat (map sentences new))) \<and>
         counter_value (snd (snd (process_paragraphs e co p ts (r, paras, st)))) =
           counter_value st + int (length (concat (map sentences new)))"
proof (induction ts arbitrary: p r paras st)
  case Nil
  show ?case by simp
next
  case (Cons t rest)
  define st1 where "st1 = snd (draw_uuid e st)"
  define res where "res = process_lines e co p (splitlines t) (r, [], st1)"
  define sents where "sents = fst (snd res)"
  define st2 where "st2 = snd (snd res)"
  define para where "para = \<lparr>paragraphID = fst (draw_uuid e st), paragraphIndex = p,
                              sentences = sents\<rparr>"
  define paras1 where "paras1 = (if sents \<noteq> [] then paras @ [para] else paras)"
  have step: "process_paragraphs e co p (t # rest) (r, paras, st) =
              process_paragraphs e co (p + 1) rest (fst res, paras1, st2)"
    by (simp add: Let_def split_beta st1_def res_def sents_def st2_def para_def paras1_def)
  have cst1: "counter_value st1 = counter_value st"
    by (simp add: st1_def draw_uuid_def)
  from process_lines_indices [of e co p "splitlines t" r "[]" st1]
  have i1: "map globalSentenceIndex sents = count_up (counter_value st) (length sents)"
    and c1: "counter_value st2 = counter_value st + int (length sents)"
    by (auto simp: res_def sents_def st2_def cst1)
  from Cons.IH [of "p + 1" "fst res" paras1 st2] obtain new2 where
    a: "fst (snd (process_paragraphs e co (p + 1) rest (fst res, paras1, st2))) = paras1 @ new2"
    and b: "map globalSentenceIndex (concat (map sentences new2)) =
              count_up (counter_value st2) (length (concat (map sentences new2)))"
    and c: "counter_value (snd (snd (process_paragraphs e co (p + 1) rest (fst res, paras1, st2)))) =
              counter_value st2 + int (length (concat (map sentences new2)))"
    by blast
  show ?case
  proof (cases "sents = []")
    case True
    then have "paras1 = paras" by (simp add: paras1_def)
    with True a b c c1 show ?thesis
      unfolding step by (intro exI [of _ new2]) simp
  next
    case False
    then have p1: "paras1 = paras @ [para]" by (simp add: paras1_def)
    have sp: "sentences para = sents" by (simp add: para_def)
    from a b c show ?thesis
      unfolding step p1
      by (intro exI [of _ "para # new2"]) (simp add: i1 c1 sp count_up_add)
  qed
qed

lemma process_chapter_file_indices:
  assumes "process_chapter_file e f lang bc sub st = (Some d, st')"
  shows "map globalSentenceIndex (chapter_sentences d) =
           count_up (counter_value st) (length (chapter_sentences d)) \<and>
         counter_value st' = counter_value st + int (length (chapter_sentences d))"
proof -
  from assms obtain first_line body_lines where fl: "file_lines f = Some (first_line # body_lines)"
    by (auto simp: process_chapter_file_def split: option.splits list.splits)
  define co where "co = \<lparr>co_language = lang, co_book_code = bc, co_subbook_num = sub,
                         co_chapter_number = chapter_number_of (file_name f)\<rparr>"
  define st1 where "st1 = snd (draw_uuid e st)"
  define res where "res = process_paragraphs e co 1
                     (parse_paragraphs (strip (concat body_lines))) ([], [], st1)"
  from assms fl have d: "paragraphs d = fst (snd res)" and s: "st' = snd (snd res)"
    by (auto simp: process_chapter_file_def Let_def split_beta co_def st1_def res_def)
  have cst1: "counter_value st1 = counter_value st"
    by (simp add: st1_def draw_uuid_def)
  from process_paragraphs_indices [of e co 1 "parse_paragraphs (strip (concat body_lines))" "[]" "[]" st1]
  show ?thesis
    by (auto simp: chapter_sentences_def d s res_def cst1)
qed

lemma process_chapter_file_None:
  "process_chapter_file e f lang bc sub st = (None, st') \<Longrightarrow> st' = st"
  by (auto simp: process_chapter_file_def Let_def split_beta split: option.splits list.splits)

lemma process_files_indices:
  "map globalSentenceIndex (run_sentences (fst (process_files e u lang bc fs st))) =
     count_up (counter_value st) (length (run_sentences (fst (process_files e u lang bc fs st)))) \<and>
   counter_value (snd (process_files e u lang bc fs st)) =
     counter_value st + int (length (run_sentences (fst (process_files e u lang bc fs st))))"
proof (induction fs arbitrary: st)
  case Nil
  show ?case by (simp add: run_sentences_def)
next
  case (Cons f rest)
  define sub where "sub = (if u then (''1-Default'', 1) else get_subbook_info f)"
  obtain cd st1 where pc: "process_chapter_file e f lang bc (snd sub) st = (cd, st1)"
    by (cases "process_chapter_file e f lang bc (snd sub) st")
  show ?case
  proof (cases cd)
    case None
    with pc have "st1 = st" by (simp add: process_chapter_file_None)
    with None pc Cons.IH [of st] show ?thesis
      by (simp add: Let_def split_beta sub_def run_sentences_def)
  next
    case (Some d)
    from process_chapter_file_indices [OF pc [unfolded Some]]
    have i1: "map globalSentenceIndex (chapter_sentences d) =
                count_up (counter_value st) (length (chapter_sentences d))"
      and c1: "counter_value st1 = counter_value st + int (length (chapter_sentences d))"
      by simp_all
    from Some pc Cons.IH [of st1] i1 c1 show ?thesis
      by (simp add: Let_def split_beta sub_def run_sentences_def count_up_add)
  qed
qed

text \<open>
  Claim C1. In a book run the records handed to \<open>json.dump\<close> carry, read in the order of
  emission, the global sentence indices 1, 2, ..., N, where N is the number of sentence
  records of the run: no index repeats and none is missing. The counter ends at N + 1, one
  increment for each sentence. The loop over the chapter files never resets the counter:
  started at any counter value \<open>c\<close> it gives the indices c, ..., c + n - 1 and ends at
  c + n.
\<close>

theorem global_index_continuity:
  "map globalSentenceIndex (run_sentences (fst (process_all_chapter_files e base lang bc))) =
     [1..int (length (run_sentences (fst (process_all_chapter_files e base lang bc))))] \<and>
   counter_value (snd (process_all_chapter_files e base lang bc)) =
     1 + int (length (run_sentences (fst (process_all_chapter_files e base lang bc)))) \<and>
   map globalSentenceIndex (run_sentences (fst (process_files e u lang bc fs st))) =
     [counter_value st..counter_value st +
        int (length (run_sentences (fst (process_files e u lang bc fs st)))) - 1] \<and>
   counter_value (snd (process_files e u lang bc fs st)) =
     counter_value st + int (length (run_sentences (fst (process_files e u lang bc fs st))))"
  using process_files_indices [of e "subbook_folders base = []" lang bc "chapter_files_of base"
          "\<lparr>counter_value = 1, uuid_draws = 0\<rparr>"]
        process_files_indices [of e u lang bc fs st]
  by (simp add: process_all_chapter_files_def count_up_upto)

lemma sample_book_run_length:
  "length (run_sentences (fst (process_all_chapter_files sample_env sample_book ''en-US''
      ''BOOKM''))) = 4"
  by code_simp

theorem global_index_continuity_witness:
  "map globalSentenceIndex
     (run_sentences (fst (process_all_chapter_files sample_env sample_book ''en-US'' ''BOOKM'')))
     = [1, 2, 3, 4] \<and>
   counter_value (snd (process_all_chapter_files sample_env sample_book ''en-US'' ''BOOKM'')) = 5"
proof -
  have "[1..4] = [1, 2, 3, (4::int)]"
    by code_simp
  with global_index_continuity [of sample_env sample_book "''en-US''" "''BOOKM''"
         True "[]" "\<lparr>counter_value = 1, uuid_draws = 0\<rparr>"]
  show ?thesis
    by (simp add: sample_book_run_length)
qed

subsection \<open>The structure of a chapter record\<close>

lemma process_lines_acc:
  "process_lines e co p ls (r, sents, st) =
     (fst (process_lines e co p ls (r, [], st)),
      sents @ fst (snd (process_lines e co p ls (r, [], st))),
      snd (snd (process_lines e co p ls (r, [], st))))"
proof (induction ls arbitrary: r sents st)
  case Nil
  show ?case by simp
next
  case (Cons raw rest)
  show ?case
  proof (cases "strip raw = []")
    case True
    with Cons.IH [of r sents st] show ?thesis by simp
  next
    case False
    show ?thesis
    proof (cases "ref_match (strip raw)")
      case (Some g)
      with False Cons.IH [of "strip g" sents st] show ?thesis by simp
    next
      case None
      obtain new st1 where a: "add_sentences e co p r 1 (parse_sentences e (strip raw)) st = (new, st1)"
        by (cases "add_sentences e co p r 1 (parse_sentences e (strip raw)) st")
      from False None a Cons.IH [of r "sents @ new" st1] Cons.IH [of r new st1]
      show ?thesis by simp
    qed
  qed
qed

lemma process_paragraphs_shells:
  "fst (snd (process_paragraphs e co p ts (r, paras, st))) =
     paras @ filter (\<lambda>q. sentences q \<noteq> []) (paragraph_shells e co p ts (r, st))"
proof (induction ts arbitrary: p r paras st)
  case Nil
  show ?case by simp
next
  case (Cons t rest)
  obtain pid st1 where d: "draw_uuid e st = (pid, st1)"
    by (cases "draw_uuid e st")
  obtain r' sents st2 where l: "process_lines e co p (splitlines t) (r, [], st1) = (r', sents, st2)"
    by (cases "process_lines e co p (splitlines t) (r, [], st1)")
  show ?case
    using d l Cons.IH by simp
qed

lemma process_chapter_file_shells:
  assumes "process_chapter_file e f lang bc sub st = (Some d, st')"
  shows "paragraphs d = filter (\<lambda>q. sentences q \<noteq> []) (chapter_shells e f lang bc sub st)"
    and "language d = lang" and "chapterNumber d = chapter_number_of (file_name f)"
proof -
  from assms obtain first_line body_lines where fl: "file_lines f = Some (first_line # body_lines)"
    by (auto simp: process_chapter_file_def split: option.splits list.splits)
  obtain cid st1 where dr: "draw_uuid e st = (cid, st1)"
    by (cases "draw_uuid e st")
  from assms fl dr show "paragraphs d = filter (\<lambda>q. sentences q \<noteq> []) (chapter_shells e f lang bc sub st)"
    using process_paragraphs_shells [of e "chapter_coords f lang bc sub" 1 "chapter_blocks f" "[]" "[]" st1]
    by (auto simp: process_chapter_file_def Let_def split_beta chapter_shells_def
          chapter_blocks_def chapter_coords_def)
  from assms fl show "language d = lang" "chapterNumber d = chapter_number_of (file_name f)"
    by (auto simp: process_chapter_file_def Let_def split_beta)
qed

lemma paragraph_shells_index:
  "map paragraphIndex (paragraph_shells e co p ts (r, st)) = count_up p (length ts)"
  by (induction ts arbitrary: p r st) (auto simp: Let_def split_beta)

lemma add_sentences_reference:
  "map reference (fst (add_sentences e co p r k sents st)) = replicate (length sents) r"
  by (induction sents arbitrary: k st) (auto simp: Let_def split_beta)

lemma add_sentences_audio:
  "list_all (\<lambda>s. audioFile s =
       create_audio_filename (globalSentenceIndex s) (co_book_code co) (co_subbook_num co)
         (co_chapter_number co) p (sentenceIndex s) (co_language co))
     (fst (add_sentences e co p r k sents st))"
  by (induction sents arbitrary: k st) (auto simp: Let_def split_beta)

lemma parse_sentences_nonempty: "parse_sentences e l \<noteq> []"
  by (simp add: parse_sentences_def Let_def)

lemma add_sentences_nonempty:
  "sents \<noteq> [] \<Longrightarrow> fst (add_sentences e co p r k sents st) \<noteq> []"
  using add_sentences_length [of e co p r k sents st] by auto

lemma process_lines_reference:
  "map reference (fst (snd (process_lines e co p ls (r, [], st)))) =
     carried_refs e r (filter (\<lambda>l. l \<noteq> []) (map strip ls)) \<and>
   fst (process_lines e co p ls (r, [], st)) = ref_after r (filter (\<lambda>l. l \<noteq> []) (map strip ls))"
proof (induction ls arbitrary: r st)
  case Nil
  show ?case by simp
next
  case (Cons raw rest)
  show ?case
  proof (cases "strip raw = []")
    case True
    with Cons.IH [of r st] show ?thesis by simp
  next
    case False
    show ?thesis
    proof (cases "ref_match (strip raw)")
      case (Some g)
      with False Cons.IH [of "strip g" st] show ?thesis by simp
    next
      case None
      obtain new st1 where a: "add_sentences e co p r 1 (parse_sentences e (strip raw)) st = (new, st1)"
        by (cases "add_sentences e co p r 1 (parse_sentences e (strip raw)) st")
      have n: "map reference new = replicate (length (parse_sentences e (strip raw))) r"
        using add_sentences_reference [of e co p r 1 "parse_sentences e (strip raw)" st] a by simp
      have step: "process_lines e co p (raw # rest) (r, [], st) =
                  process_lines e co p rest (r, new, st1)"
        using False None a by simp
      show ?thesis
        unfolding step
        using False None n Cons.IH [of r st1]
        by (subst (1 2) process_lines_acc) simp
    qed
  qed
qed

lemma process_lines_audio:
  "list_all (\<lambda>s. audioFile s =
       create_audio_filename (globalSentenceIndex s) (co_book_code co) (co_subbook_num co)
         (co_chapter_number co) p (sentenceIndex s) (co_language co))
     (fst (snd (process_lines e co p ls (r, [], st))))"
proof (induction ls arbitrary: r st)
  case Nil
  show ?case by simp
next
  case (Cons raw rest)
  show ?case
  proof (cases "strip raw = []")
    case True
    with Cons.IH [of r st] show ?thesis by simp
  next
    case False
    show ?thesis
    proof (cases "ref_match (strip raw)")
      case (Some g)
      with False Cons.IH [of "strip g" st] show ?thesis by simp
    next
      case None
      obtain new st1 where a: "add_sentences e co p r 1 (parse_sentences e (strip raw)) st = (new, st1)"
        by (cases "add_sentences e co p r 1 (parse_sentences e (strip raw)) st")
      have step: "process_lines e co p (raw # rest) (r, [], st) =
                  process_lines e co p rest (r, new, st1)"
        using False None a by simp
      show ?thesis
        unfolding step
        using add_sentences_audio [of co p e r 1 "parse_sentences e (strip raw)" st] a
          Cons.IH [of r st1]
        by (subst process_lines_acc) simp
    qed
  qed
qed

lemma process_lines_bears:
  "(fst (snd (process_lines e co p ls (r, [], st))) \<noteq> []) =
     (filter (\<lambda>l. ref_match l = None) (filter (\<lambda>l. l \<noteq> []) (map strip ls)) \<noteq> [])"
proof (induction ls arbitrary: r st)
  case Nil
  show ?case by simp
next
  case (Cons raw rest)
  show ?case
  proof (cases "strip raw = []")
    case True
    with Cons.IH [of r st] show ?thesis by simp
  next
    case False
    show ?thesis
    proof (cases "ref_match (strip raw)")
      case (Some g)
      with False Cons.IH [of "strip g" st] show ?thesis by simp
    next
      case None
      obtain new st1 where a: "add_sentences e co p r 1 (parse_sentences e (strip raw)) st = (new, st1)"
        by (cases "add_sentences e co p r 1 (parse_sentences e (strip raw)) st")
      have ne: "new \<noteq> []"
        using add_sentences_nonempty [OF parse_sentences_nonempty, of e co p r 1 e "strip raw" st] a
        by simp
      have step: "process_lines e co p (raw # rest) (r, [], st) =
                  process_lines e co p rest (r, new, st1)"
        using False None a by simp
      show ?thesis
        unfolding step
        using False None ne
        by (subst process_lines_acc) simp
    qed
  qed
qed

lemma carried_refs_append:
  "carried_refs e r (xs @ ys) = carried_refs e r xs @ carried_refs e (ref_after r xs) ys"
  by (induction xs arbitrary: r) (auto split: option.splits)

lemma paragraph_shells_reference:
  "map reference (concat (map sentences (paragraph_shells e co p ts (r, st)))) =
     carried_refs e r (concat (map content_lines ts))"
proof (induction ts arbitrary: p r st)
  case Nil
  show ?case by simp
next
  case (Cons t rest)
  obtain pid st1 where d: "draw_uuid e st = (pid, st1)"
    by (cases "draw_uuid e st")
  obtain r' sents st2 where l: "process_lines e co p (splitlines t) (r, [], st1) = (r', sents, st2)"
    by (cases "process_lines e co p (splitlines t) (r, [], st1)")
  from process_lines_reference [of e co p "splitlines t" r st1] l
  have "map reference sents = carried_refs e r (content_lines t)"
    and "r' = ref_after r (content_lines t)"
    by (simp_all add: content_lines_def)
  with d l Cons.IH [of "p + 1" r' st2] show ?case
    by (simp add: carried_refs_append)
qed

lemma paragraph_shells_audio:
  "list_all (\<lambda>q. list_all (\<lambda>s. audioFile s =
       create_audio_filename (globalSentenceIndex s) (co_book_code co) (co_subbook_num co)
         (co_chapter_number co) (paragraphIndex q) (sentenceIndex s) (co_language co))
       (sentences q))
     (paragraph_shells e co p ts (r, st))"
proof (induction ts arbitrary: p r st)
  case Nil
  show ?case by simp
next
  case (Cons t rest)
  obtain pid st1 where d: "draw_uuid e st = (pid, st1)"
    by (cases "draw_uuid e st")
  obtain r' sents st2 where l: "process_lines e co p (splitlines t) (r, [], st1) = (r', sents, st2)"
    by (cases "process_lines e co p (splitlines t) (r, [], st1)")
  from process_lines_audio [of co p e "splitlines t" r st1] l d Cons.IH [of "p + 1" r' st2]
  show ?case by simp
qed

lemma paragraph_shells_bears:
  "map (\<lambda>q. sentences q \<noteq> []) (paragraph_shells e co p ts (r, st)) = map bears_sentences ts"
proof (induction ts arbitrary: p r st)
  case Nil
  show ?case by simp
next
  case (Cons t rest)
  obtain pid st1 where d: "draw_uuid e st = (pid, st1)"
    by (cases "draw_uuid e st")
  obtain r' sents st2 where l: "process_lines e co p (splitlines t) (r, [], st1) = (r', sents, st2)"
    by (cases "process_lines e co p (splitlines t) (r, [], st1)")
  from process_lines_bears [of e co p "splitlines t" r st1] l d Cons.IH [of "p + 1" r' st2]
  show ?case by (simp add: bears_sentences_def content_lines_def)
qed

lemma concat_sentences_filter:
  "concat (map sentences (filter (\<lambda>q. sentences q \<noteq> []) ps)) = concat (map sentences ps)"
  by (induction ps) auto

lemma process_chapter_file_unreadable:
  "\<not> readable f \<Longrightarrow> process_chapter_file e f lang bc sub st = (None, st)"
  by (auto simp: process_chapter_file_def readable_def split: option.splits list.splits)

lemma process_chapter_file_readable:
  "readable f \<Longrightarrow> \<exists>d st'. process_chapter_file e f lang bc sub st = (Some d, st')"
  by (auto simp: process_chapter_file_def readable_def Let_def split_beta
      split: option.splits list.splits)

lemma process_chapter_file_reference:
  assumes "process_chapter_file e f lang bc sub st = (Some d, st')"
  shows "map reference (chapter_sentences d) = carried_refs e [] (chapter_lines f)"
  using process_chapter_file_shells(1) [OF assms]
  by (simp add: chapter_sentences_def concat_sentences_filter chapter_shells_def
      paragraph_shells_reference chapter_lines_def)

lemma process_files_reference:
  "map (\<lambda>d. map reference (chapter_sentences d)) (dumped (fst (process_files e u lang bc fs st))) =
     map (\<lambda>f. carried_refs e [] (chapter_lines f)) (filter readable fs)"
proof (induction fs arbitrary: st)
  case Nil
  show ?case by simp
next
  case (Cons f rest)
  define sub where "sub = snd (if u then (''1-Default'', 1) else get_subbook_info f)"
  show ?case
  proof (cases "readable f")
    case False
    from process_chapter_file_unreadable [OF False, of e lang bc sub st] False Cons.IH [of st]
    show ?thesis by (simp add: Let_def split_beta sub_def)
  next
    case True
    from process_chapter_file_readable [OF True, of e lang bc sub st]
    obtain d st1 where pc: "process_chapter_file e f lang bc sub st = (Some d, st1)"
      by blast
    from pc process_chapter_file_reference [OF pc] True Cons.IH [of st1]
    show ?thesis by (simp add: Let_def split_beta sub_def)
  qed
qed

lemma carried_refs_no_marker:
  "list_all (\<lambda>l. ref_match l = None) ls \<Longrightarrow> list_all (\<lambda>x. x = r) (carried_refs e r ls)"
  by (induction ls) (auto simp: list_all_iff)

subsection \<open>Reference carry-forward\<close>

text \<open>
  Claim C2. The references of the sentence records of a chapter, in order, are those the
  carry-forward rule gives for the non-blank lines of the chapter file, started from the
  empty reference: a line of the reference-marker form sets the current reference and
  gives no sentence record, every later sentence (in later paragraphs too) carries it
  until the next marker, and sentences before any marker carry the empty reference. A
  chapter without a marker has the empty reference on all its sentences; in a run every
  chapter starts from the empty reference again, whatever the chapters before it held.
\<close>

theorem reference_carry_forward:
  "(process_chapter_file e f lang bc sub st = (Some d, st') \<longrightarrow>
      map reference (chapter_sentences d) = carried_refs e [] (chapter_lines f) \<and>
      (list_all (\<lambda>l. ref_match l = None) (chapter_lines f) \<longrightarrow>
         list_all (\<lambda>s. reference s = []) (chapter_sentences d))) \<and>
   map (\<lambda>d. map reference (chapter_sentences d))
       (dumped (fst (process_files e u lang bc fs st))) =
     map (\<lambda>f. carried_refs e [] (chapter_lines f)) (filter readable fs)"
proof -
  have "list_all (\<lambda>s. reference s = []) (chapter_sentences d)"
    if pc: "process_chapter_file e f lang bc sub st = (Some d, st')"
      and nm: "list_all (\<lambda>l. ref_match l = None) (chapter_lines f)"
  proof -
    from carried_refs_no_marker [OF nm, of "[]" e] process_chapter_file_reference [OF pc]
    have "list_all (\<lambda>x. x = []) (map reference (chapter_sentences d))" by simp
    then show ?thesis by (simp add: list_all_iff)
  qed
  then show ?thesis
    using process_chapter_file_reference [of e f lang bc sub st d st'] process_files_reference
    by blast
qed

lemma sample_book_references:
  "map (\<lambda>d. map reference (chapter_sentences d))
       (dumped (fst (process_all_chapter_files sample_env sample_book ''en-US'' ''BOOKM''))) =
   [[''1:1'', ''1:1'', ''1:2''], [[]]]"
  by code_simp

theorem reference_carry_forward_witness:
  "map reference (chapter_sentences (the (fst
      (process_chapter_file sample_env sample_chapter ''en-US'' ''BOOKM'' 1 sample_start)))) =
     [''1:1'', ''1:1'', ''1:2''] \<and>
   list_all (\<lambda>l. ref_match l = None) (chapter_lines sample_plain) \<and>
   list_all (\<lambda>s. reference s = []) (chapter_sentences (the (fst
      (process_chapter_file sample_env sample_plain ''en-US'' ''BOOKM'' 2 sample_start)))) \<and>
   map (\<lambda>d. map reference (chapter_sentences d))
     (dumped (fst (process_files sample_env False ''en-US'' ''BOOKM''
        [sample_chapter, sample_plain] sample_start))) =
     [[''1:1'', ''1:1'', ''1:2''], [[]]]"
proof -
  have r1: "readable sample_chapter" and r2: "readable sample_plain"
    by code_simp+
  obtain d1 s1 where p1:
    "process_chapter_file sample_env sample_chapter ''en-US'' ''BOOKM'' 1 sample_start = (Some d1, s1)"
    using process_chapter_file_readable [OF r1] by blast
  obtain d2 s2 where p2:
    "process_chapter_file sample_env sample_plain ''en-US'' ''BOOKM'' 2 sample_start = (Some d2, s2)"
    using process_chapter_file_readable [OF r2] by blast
  have c1: "carried_refs sample_env [] (chapter_lines sample_chapter) = [''1:1'', ''1:1'', ''1:2'']"
    by code_simp
  have c2: "carried_refs sample_env [] (chapter_lines sample_plain) = [[]]"
    by code_simp
  have nm: "list_all (\<lambda>l. ref_match l = None) (chapter_lines sample_plain)"
    by code_simp
  from reference_carry_forward [of sample_env sample_chapter "''en-US''" "''BOOKM''" 1
         sample_start d1 s1 False "[sample_chapter, sample_plain]"] p1
  have a: "map reference (chapter_sentences d1) = [''1:1'', ''1:1'', ''1:2'']"
    and b: "map (\<lambda>d. map reference (chapter_sentences d))
       (dumped (fst (process_files sample_env False ''en-US'' ''BOOKM''
          [sample_chapter, sample_plain] sample_start))) = [[''1:1'', ''1:1'', ''1:2''], [[]]]"
    by (simp_all add: c1 c2 r1 r2 del: process_files.simps)
  from reference_carry_forward [of sample_env sample_plain "''en-US''" "''BOOKM''" 2
         sample_start d2 s2 False "[]"] p2 nm
  have c: "list_all (\<lambda>s. reference s = []) (chapter_sentences d2)"
    by simp
  from a b c nm p1 p2 show ?thesis
    by (simp del: process_files.simps)
qed

subsection \<open>The audio file name\<close>

lemma list_all_filter: "list_all P xs \<Longrightarrow> list_all P (filter Q xs)"
  by (induction xs) auto

lemma process_chapter_file_audio:
  assumes "process_chapter_file e f lang bc sub st = (Some d, st')"
  shows "list_all (\<lambda>q. list_all (\<lambda>s. audioFile s =
            create_audio_filename (globalSentenceIndex s) bc sub (chapterNumber d)
              (paragraphIndex q) (sentenceIndex s) (language d)) (sentences q))
          (paragraphs d)"
proof -
  have "list_all (\<lambda>q. list_all (\<lambda>s. audioFile s =
            create_audio_filename (globalSentenceIndex s) bc sub
              (chapter_number_of (file_name f)) (paragraphIndex q) (sentenceIndex s) lang)
            (sentences q))
          (chapter_shells e f lang bc sub st)"
    using paragraph_shells_audio [of "chapter_coords f lang bc sub" e 1 "chapter_blocks f" "[]"
        "snd (draw_uuid e st)"]
    by (simp add: chapter_shells_def chapter_coords_def)
  then show ?thesis
    using process_chapter_file_shells [OF assms] by (simp add: list_all_filter)
qed

lemma digits_length: "n < 10 ^ k \<Longrightarrow> 0 < k \<Longrightarrow> length (digits n) \<le> k"
proof (induction k arbitrary: n)
  case 0
  then show ?case by simp
next
  case (Suc k)
  show ?case
  proof (cases "n < 10")
    case True
    then show ?thesis by (simp add: digits.simps [of n])
  next
    case False
    with Suc.prems have k: "0 < k"
      by (cases k) auto
    from Suc.prems have "n div 10 < 10 ^ k"
      by (simp add: less_mult_imp_div_less mult.commute)
    from Suc.IH [OF this k] False show ?thesis
      by (simp add: digits.simps [of n])
  qed
qed

lemma int_of_digits_snoc:
  "int_of_digits (xs @ [c]) = int_of_digits xs * 10 + (int (of_char c) - 48)"
  by (simp add: int_of_digits_def)

lemma int_of_digits_digits: "int_of_digits (digits n) = int n"
proof (induction n rule: digits.induct)
  case (1 n)
  show ?case
  proof (cases "n < 10")
    case True
    then show ?thesis
      by (simp add: digits.simps [of n] int_of_digits_def)
  next
    case False
    have c: "int (of_char (char_of (48 + n mod 10) :: char)) = 48 + int (n mod 10)"
      by simp
    have d: "int (n div 10) * 10 + int (n mod 10) = int n"
      by presburger
    from False "1.IH" c d show ?thesis
      by (simp add: digits.simps [of n] int_of_digits_snoc)
  qed
qed

lemma int_of_digits_zeros:
  "int_of_digits (replicate k (CHR ''0'') @ ds) = int_of_digits ds"
proof -
  have "foldl (\<lambda>a c. a * 10 + (int (of_char c) - 48)) 0 (replicate k (CHR ''0'')) = 0"
    by (induction k) simp_all
  then show ?thesis by (simp add: int_of_digits_def)
qed

lemma format_07d_width:
  assumes "0 \<le> g" and "g < 10000000"
  shows "length (format_07d g) = 7"
proof -
  from assms have "nat g < 10 ^ 7" by simp
  from digits_length [OF this] have "length (digits (nat g)) \<le> 7" by simp
  with assms show ?thesis
    by (simp add: format_07d_def zero_pad_def)
qed

lemma format_07d_value: "0 \<le> g \<Longrightarrow> int_of_digits (format_07d g) = g"
  by (simp add: format_07d_def zero_pad_def int_of_digits_zeros int_of_digits_digits)

text \<open>
  Claim C4. Every sentence record of a chapter record has as \<open>audioFile\<close> the name built
  from its own global index, the book code, the subbook number, the chapter number of the
  record, the index of the paragraph that holds it, its own sentence index and the
  language of the record. The name is the global index in the format \<open>07d\<close> (for an index
  that is not negative: its decimal digits, padded with zeros on the left to seven
  characters), then the other parts in plain decimal, joined as the format string has it.
  The coordinates (42, BOOKM, 1, 3, 2, 5, en-US) give 0000042\_BOOKM\_S1\_C3\_P2\_S5\_en-US.aac.
\<close>

theorem audio_file_derivation:
  "(process_chapter_file e f lang bc sub st = (Some d, st') \<longrightarrow>
      list_all (\<lambda>q. list_all (\<lambda>s. audioFile s =
            create_audio_filename (globalSentenceIndex s) bc sub (chapterNumber d)
              (paragraphIndex q) (sentenceIndex s) (language d)) (sentences q))
        (paragraphs d)) \<and>
   create_audio_filename g bc sub ch p k lang =
     format_07d g @ ''_'' @ bc @ ''_S'' @ str_int sub @ ''_C'' @ str_int ch @ ''_P'' @
     str_int p @ ''_S'' @ str_int k @ ''_'' @ lang @ ''.aac'' \<and>
   (0 \<le> g \<longrightarrow>
      format_07d g = replicate (7 - length (str_int g)) (CHR ''0'') @ str_int g \<and>
      int_of_digits (format_07d g) = g) \<and>
   (0 \<le> g \<and> g < 10000000 \<longrightarrow> length (format_07d g) = 7) \<and>
   create_audio_filename 42 ''BOOKM'' 1 3 2 5 ''en-US'' = ''0000042_BOOKM_S1_C3_P2_S5_en-US.aac''"
proof -
  have ex: "create_audio_filename 42 ''BOOKM'' 1 3 2 5 ''en-US'' =
              ''0000042_BOOKM_S1_C3_P2_S5_en-US.aac''"
    by code_simp
  have pad: "format_07d g = replicate (7 - length (str_int g)) (CHR ''0'') @ str_int g"
    if "0 \<le> g"
    using that by (simp add: format_07d_def str_int_def zero_pad_def)
  have nm: "create_audio_filename g bc sub ch p k lang =
     format_07d g @ ''_'' @ bc @ ''_S'' @ str_int sub @ ''_C'' @ str_int ch @ ''_P'' @
     str_int p @ ''_S'' @ str_int k @ ''_'' @ lang @ ''.aac''"
    by (simp add: create_audio_filename_def)
  from process_chapter_file_audio [of e f lang bc sub st d st'] ex pad nm
    format_07d_value [of g] format_07d_width [of g]
  show ?thesis by blast
qed

theorem audio_file_derivation_witness:
  "map (\<lambda>q. map audioFile (sentences q)) (paragraphs (the (fst
      (process_chapter_file sample_env sample_chapter ''en-US'' ''BOOKM'' 1 sample_start)))) =
     [[''0000001_BOOKM_S1_C1_P2_S1_en-US.aac'', ''0000002_BOOKM_S1_C1_P2_S2_en-US.aac''],
      [''0000003_BOOKM_S1_C1_P3_S1_en-US.aac'']] \<and>
   list_all (\<lambda>q. list_all (\<lambda>s. audioFile s =
            create_audio_filename (globalSentenceIndex s) ''BOOKM'' 1 1
              (paragraphIndex q) (sentenceIndex s) ''en-US'') (sentences q))
     (paragraphs (the (fst
      (process_chapter_file sample_env sample_chapter ''en-US'' ''BOOKM'' 1 sample_start)))) \<and>
   format_07d 42 = ''0000042'' \<and> length (format_07d 42) = 7 \<and>
   int_of_digits (format_07d 42) = 42"
proof -
  have r1: "readable sample_chapter"
    by code_simp
  obtain d1 s1 where p1:
    "process_chapter_file sample_env sample_chapter ''en-US'' ''BOOKM'' 1 sample_start = (Some d1, s1)"
    using process_chapter_file_readable [OF r1] by blast
  have v: "map (\<lambda>q. map audioFile (sentences q)) (paragraphs (the (fst
      (process_chapter_file sample_env sample_chapter ''en-US'' ''BOOKM'' 1 sample_start)))) =
     [[''0000001_BOOKM_S1_C1_P2_S1_en-US.aac'', ''0000002_BOOKM_S1_C1_P2_S2_en-US.aac''],
      [''0000003_BOOKM_S1_C1_P3_S1_en-US.aac'']]"
    by code_simp
  have n: "chapterNumber d1 = 1" "language d1 = ''en-US''"
    using process_chapter_file_shells(2,3) [OF p1] by (simp_all, code_simp)
  have s: "str_int 42 = ''42''" "replicate 5 (CHR ''0'') = ''00000''"
    by code_simp+
  note t = audio_file_derivation [of sample_env sample_chapter "''en-US''" "''BOOKM''" 1
         sample_start d1 s1 42]
  from t p1 n have a: "list_all (\<lambda>q. list_all (\<lambda>s. audioFile s =
            create_audio_filename (globalSentenceIndex s) ''BOOKM'' 1 1
              (paragraphIndex q) (sentenceIndex s) ''en-US'') (sentences q)) (paragraphs d1)"
    by simp
  from t s have b: "format_07d 42 = ''0000042''"
    by simp
  have g: "(0::int) \<le> 42" "(42::int) < 10000000"
    by simp_all
  from t g have c: "length (format_07d 42) = 7" "int_of_digits (format_07d 42) = 42"
    by blast+
  from a b c v p1 show ?thesis
    by simp
qed

subsection \<open>Paragraph indices and empty paragraphs\<close>

lemma paragraph_shells_kept_index:
  "map paragraphIndex (filter (\<lambda>q. sentences q \<noteq> []) (paragraph_shells e co p ts (r, st))) =
     map fst (filter (\<lambda>(i, t). bears_sentences t) (zip (count_up p (length ts)) ts))"
proof (induction ts arbitrary: p r st)
  case Nil
  show ?case by simp
next
  case (Cons t rest)
  obtain pid st1 where d: "draw_uuid e st = (pid, st1)"
    by (cases "draw_uuid e st")
  obtain r' sents st2 where l: "process_lines e co p (splitlines t) (r, [], st1) = (r', sents, st2)"
    by (cases "process_lines e co p (splitlines t) (r, [], st1)")
  from process_lines_bears [of e co p "splitlines t" r st1] l
  have "(sents \<noteq> []) = bears_sentences t"
    by (simp add: bears_sentences_def content_lines_def)
  with d l Cons.IH [of "p + 1" r' st2] show ?case by simp
qed

lemma sorted_count_up: "sorted_wrt (<) (count_up c n)"
  by (simp add: count_up_upto strict_sorted_iff)

lemma sorted_kept:
  "sorted_wrt (<) (map fst (filter P (zip (count_up c (length ts)) ts)))"
proof -
  have "sorted_wrt (<) (map fst (zip (count_up c (length ts)) ts))"
    by (simp add: sorted_count_up)
  then have "sorted_wrt (\<lambda>a b. fst a < fst b) (zip (count_up c (length ts)) ts)"
    unfolding sorted_wrt_map .
  then have "sorted_wrt (\<lambda>a b. fst a < fst b) (filter P (zip (count_up c (length ts)) ts))"
    by (rule sorted_wrt_filter)
  then show ?thesis
    unfolding sorted_wrt_map .
qed

lemma filter_all_kept: "list_all P ys \<Longrightarrow> length xs = length ys \<Longrightarrow>
    map fst (filter (\<lambda>(i, t). P t) (zip xs ys)) = xs"
  by (induction xs ys rule: list_induct2') auto

lemma length_filter_map: "length (filter P xs) = length (filter (\<lambda>b. b) (map P xs))"
  by (induction xs) auto

lemma process_chapter_file_positions:
  assumes "process_chapter_file e f lang bc sub st = (Some d, st')"
  shows "map paragraphIndex (paragraphs d) =
           map fst (filter (\<lambda>(i, t). bears_sentences t)
             (zip (count_up 1 (length (chapter_blocks f))) (chapter_blocks f)))"
  using process_chapter_file_shells(1) [OF assms]
  by (simp add: chapter_shells_def paragraph_shells_kept_index)

text \<open>
  Claim C5, as stated, fails: the paragraph index is the position of the block among the
  blocks of the chapter text, counted before the blocks without sentences are dropped. In
  the sample chapter the first block holds a reference marker only, and the record has the
  paragraph indices 2 and 3, not 1 and 2.
\<close>

theorem paragraph_index_gap_counterexample:
  "paragraph_indices (fst (process_chapter_file sample_env sample_chapter ''en-US'' ''BOOKM'' 1
       sample_start)) = [2, 3] \<and>
   paragraph_indices (fst (process_chapter_file sample_env sample_chapter ''en-US'' ''BOOKM'' 1
       sample_start)) \<noteq>
     [1..int (length (paragraph_indices (fst (process_chapter_file sample_env sample_chapter
        ''en-US'' ''BOOKM'' 1 sample_start))))]"
proof -
  have a: "paragraph_indices (fst (process_chapter_file sample_env sample_chapter ''en-US''
             ''BOOKM'' 1 sample_start)) = [2, 3]"
    by code_simp
  have b: "[1..2] = [1, 2::int]"
    by code_simp
  show ?thesis
    unfolding a using b by simp
qed

text \<open>
  Claim C5, amended. The paragraph indices of a chapter record are the 1-based positions,
  among all paragraph blocks of the chapter text, of the blocks that have a line bearing
  sentences, in order: they increase strictly, and they are 1, 2, ..., k when every block
  of the text bears sentences.
\<close>

theorem paragraph_index_positions:
  "process_chapter_file e f lang bc sub st = (Some d, st') \<Longrightarrow>
     map paragraphIndex (paragraphs d) =
       map fst (filter (\<lambda>(i, t). bears_sentences t)
         (zip [1..int (length (chapter_blocks f))] (chapter_blocks f))) \<and>
     sorted_wrt (<) (map paragraphIndex (paragraphs d)) \<and>
     (list_all bears_sentences (chapter_blocks f) \<longrightarrow>
        map paragraphIndex (paragraphs d) = [1..int (length (paragraphs d))])"
proof -
  assume pc: "process_chapter_file e f lang bc sub st = (Some d, st')"
  note pos = process_chapter_file_positions [OF pc]
  have up: "count_up 1 (length (chapter_blocks f)) = [1..int (length (chapter_blocks f))]"
    by (simp add: count_up_upto)
  have s: "sorted_wrt (<) (map paragraphIndex (paragraphs d))"
    unfolding pos by (rule sorted_kept)
  have full: "map paragraphIndex (paragraphs d) = [1..int (length (paragraphs d))]"
    if all: "list_all bears_sentences (chapter_blocks f)"
  proof -
    have "map paragraphIndex (paragraphs d) = count_up 1 (length (chapter_blocks f))"
      unfolding pos by (rule filter_all_kept [OF all]) simp
    moreover from this have "length (paragraphs d) = length (chapter_blocks f)"
      using length_map [of paragraphIndex "paragraphs d"] by simp
    ultimately show ?thesis by (simp add: up)
  qed
  from pos s full show ?thesis
    by (simp add: up)
qed

theorem paragraph_index_positions_witness:
  "map paragraphIndex (paragraphs (the (fst (process_chapter_file sample_env sample_chapter
      ''en-US'' ''BOOKM'' 1 sample_start)))) = [2, 3] \<and>
   map bears_sentences (chapter_blocks sample_chapter) = [False, True, True] \<and>
   list_all bears_sentences (chapter_blocks sample_plain) \<and>
   map paragraphIndex (paragraphs (the (fst (process_chapter_file sample_env sample_plain
      ''en-US'' ''BOOKM'' 2 sample_start)))) = [1]"
proof -
  have r1: "readable sample_chapter" and r2: "readable sample_plain"
    by code_simp+
  obtain d1 s1 where p1:
    "process_chapter_file sample_env sample_chapter ''en-US'' ''BOOKM'' 1 sample_start = (Some d1, s1)"
    using process_chapter_file_readable [OF r1] by blast
  obtain d2 s2 where p2:
    "process_chapter_file sample_env sample_plain ''en-US'' ''BOOKM'' 2 sample_start = (Some d2, s2)"
    using process_chapter_file_readable [OF r2] by blast
  have b1: "map fst (filter (\<lambda>(i, t). bears_sentences t)
         (zip [1..int (length (chapter_blocks sample_chapter))] (chapter_blocks sample_chapter)))
        = [2, 3]"
    by code_simp
  have b2: "map bears_sentences (chapter_blocks sample_chapter) = [False, True, True]"
    by code_simp
  have b3: "list_all bears_sentences (chapter_blocks sample_plain)"
    by code_simp
  have b4: "map fst (filter (\<lambda>(i, t). bears_sentences t)
         (zip [1..int (length (chapter_blocks sample_plain))] (chapter_blocks sample_plain)))
        = [1]"
    by code_simp
  from paragraph_index_positions [OF p1] have "map paragraphIndex (paragraphs d1) = [2, 3]"
    by (simp add: b1)
  moreover from paragraph_index_positions [OF p2] have "map paragraphIndex (paragraphs d2) = [1]"
    by (simp add: b4)
  ultimately show ?thesis
    using p1 p2 b2 b3 by simp
qed

text \<open>
  Claim C6. The paragraphs of a chapter record are the paragraph records the loop built,
  one for each block, without those that have no sentence: no paragraph of the record is
  empty, a block yields an empty paragraph record exactly when none of its lines bears
  sentences (as for a block made of reference markers only), and the record has as many
  paragraphs as the text has blocks that bear sentences.
\<close>

theorem empty_paragraph_elision:
  "process_chapter_file e f lang bc sub st = (Some d, st') \<Longrightarrow>
     paragraphs d = filter (\<lambda>q. sentences q \<noteq> []) (chapter_shells e f lang bc sub st) \<and>
     map paragraphIndex (chapter_shells e f lang bc sub st) =
       [1..int (length (chapter_blocks f))] \<and>
     map (\<lambda>q. sentences q = []) (chapter_shells e f lang bc sub st) =
       map (\<lambda>t. \<not> bears_sentences t) (chapter_blocks f) \<and>
     list_all (\<lambda>q. sentences q \<noteq> []) (paragraphs d) \<and>
     length (paragraphs d) = length (filter bears_sentences (chapter_blocks f)) \<and>
     (list_all (\<lambda>l. ref_match l \<noteq> None) (content_lines t) \<longrightarrow> \<not> bears_sentences t)"
proof -
  assume pc: "process_chapter_file e f lang bc sub st = (Some d, st')"
  note sh = process_chapter_file_shells(1) [OF pc]
  have ix: "map paragraphIndex (chapter_shells e f lang bc sub st) =
              [1..int (length (chapter_blocks f))]"
    by (simp add: chapter_shells_def paragraph_shells_index count_up_upto)
  have be: "map (\<lambda>q. sentences q \<noteq> []) (chapter_shells e f lang bc sub st) =
              map bears_sentences (chapter_blocks f)"
    by (simp add: chapter_shells_def paragraph_shells_bears)
  have em: "map (\<lambda>q. sentences q = []) (chapter_shells e f lang bc sub st) =
              map (\<lambda>t. \<not> bears_sentences t) (chapter_blocks f)"
  proof -
    have "map Not (map (\<lambda>q. sentences q \<noteq> []) (chapter_shells e f lang bc sub st)) =
          map Not (map bears_sentences (chapter_blocks f))"
      by (simp only: be)
    then show ?thesis by (simp add: comp_def)
  qed
  have ne: "list_all (\<lambda>q. sentences q \<noteq> []) (paragraphs d)"
    unfolding sh by (simp add: list_all_iff)
  have ln: "length (paragraphs d) = length (filter bears_sentences (chapter_blocks f))"
    unfolding sh
    by (subst length_filter_map, subst be, subst length_filter_map [symmetric]) simp
  have mk: "\<not> bears_sentences t" if "list_all (\<lambda>l. ref_match l \<noteq> None) (content_lines t)"
    using that by (auto simp: bears_sentences_def list_all_iff filter_empty_conv)
  from sh ix em ne ln mk show ?thesis by blast
qed

theorem empty_paragraph_elision_witness:
  "map (\<lambda>q. sentences q = []) (chapter_shells sample_env sample_chapter ''en-US'' ''BOOKM'' 1
      sample_start) = [True, False, False] \<and>
   content_lines (hd (chapter_blocks sample_chapter)) = [''<!-- REF: 1:1 -->''] \<and>
   \<not> bears_sentences (hd (chapter_blocks sample_chapter)) \<and>
   length (paragraphs (the (fst (process_chapter_file sample_env sample_chapter ''en-US''
      ''BOOKM'' 1 sample_start)))) = 2 \<and>
   list_all (\<lambda>q. sentences q \<noteq> []) (paragraphs (the (fst (process_chapter_file sample_env
      sample_chapter ''en-US'' ''BOOKM'' 1 sample_start))))"
proof -
  have r1: "readable sample_chapter"
    by code_simp
  obtain d1 s1 where p1:
    "process_chapter_file sample_env sample_chapter ''en-US'' ''BOOKM'' 1 sample_start = (Some d1, s1)"
    using process_chapter_file_readable [OF r1] by blast
  have b: "map (\<lambda>t. \<not> bears_sentences t) (chapter_blocks sample_chapter) = [True, False, False]"
    "length (filter bears_sentences (chapter_blocks sample_chapter)) = 2"
    "content_lines (hd (chapter_blocks sample_chapter)) = [''<!-- REF: 1:1 -->'']"
    "list_all (\<lambda>l. ref_match l \<noteq> None) (content_lines (hd (chapter_blocks sample_chapter)))"
    by code_simp+
  note el = empty_paragraph_elision [OF p1, of "hd (chapter_blocks sample_chapter)",
      unfolded b(1) b(2)]
  from el have e1: "map (\<lambda>q. sentences q = []) (chapter_shells sample_env sample_chapter
      ''en-US'' ''BOOKM'' 1 sample_start) = [True, False, False]"
    by blast
  from el have e2: "list_all (\<lambda>q. sentences q \<noteq> []) (paragraphs d1)"
    by blast
  from el have e3: "length (paragraphs d1) = 2"
    by blast
  from el b(4) have e4: "\<not> bears_sentences (hd (chapter_blocks sample_chapter))"
    by blast
  from e1 e2 e3 e4 b(3) p1 show ?thesis
    by simp
qed

lemma dumped_append: "dumped (a @ b) = dumped a @ dumped b"
  by (induction a rule: dumped.induct) auto

lemma process_files_append:
  "process_files e u lang bc (xs @ ys) st =
     (fst (process_files e u lang bc xs st) @
        fst (process_files e u lang bc ys (snd (process_files e u lang bc xs st))),
      snd (process_files e u lang bc ys (snd (process_files e u lang bc xs st))))"
  by (induction xs arbitrary: st) (auto simp: Let_def split_beta split: option.splits)

subsection \<open>Unreadable and empty chapter files\<close>

text \<open>
  Claim C7. For a chapter file that cannot be read, or that has no line,
  \<open>process_chapter_file\<close> returns no record and leaves the run state (the global counter
  with it) as it was. The loop over the files makes the output directory of that file,
  dumps nothing for it and goes on with the remaining files from the same state: the
  records dumped by a run and its final state are those of the run without that file.
\<close>

theorem unreadable_units_skipped:
  "file_lines f = None \<or> file_lines f = Some [] \<Longrightarrow>
     process_chapter_file e f lang bc sub st = (None, st) \<and>
     process_files e u lang bc (f # rest) st =
       (Mkdir [lang, ''Content'', fst (if u then (''1-Default'', 1) else get_subbook_info f),
               ''Chapter'' @ str_int (chapter_number_of (file_name f))]
          # fst (process_files e u lang bc rest st),
        snd (process_files e u lang bc rest st)) \<and>
     dumped (fst (process_files e u lang bc (pre @ f # rest) st)) =
       dumped (fst (process_files e u lang bc (pre @ rest) st)) \<and>
     snd (process_files e u lang bc (pre @ f # rest) st) =
       snd (process_files e u lang bc (pre @ rest) st)"
proof -
  assume "file_lines f = None \<or> file_lines f = Some []"
  then have nr: "\<not> readable f"
    by (auto simp: readable_def)
  note skip = process_chapter_file_unreadable [OF nr]
  have one: "process_files e u lang bc (f # rest) s =
       (Mkdir [lang, ''Content'', fst (if u then (''1-Default'', 1) else get_subbook_info f),
               ''Chapter'' @ str_int (chapter_number_of (file_name f))]
          # fst (process_files e u lang bc rest s),
        snd (process_files e u lang bc rest s))" for s
    by (simp add: Let_def split_beta skip)
  have "dumped (fst (process_files e u lang bc (pre @ f # rest) st)) =
          dumped (fst (process_files e u lang bc (pre @ rest) st))"
    and "snd (process_files e u lang bc (pre @ f # rest) st) =
          snd (process_files e u lang bc (pre @ rest) st)"
    by (simp_all add: process_files_append [of e u lang bc pre] one dumped_append
        del: process_files.simps)
  with skip one show ?thesis by blast
qed

theorem unreadable_units_skipped_witness:
  "process_chapter_file sample_env sample_unreadable ''en-US'' ''BOOKM'' 1 sample_start =
     (None, sample_start) \<and>
   process_chapter_file sample_env sample_empty ''en-US'' ''BOOKM'' 1 sample_start =
     (None, sample_start) \<and>
   map (\<lambda>d. map globalSentenceIndex (chapter_sentences d))
     (dumped (fst (process_files sample_env False ''en-US'' ''BOOKM''
        [sample_chapter, sample_unreadable, sample_empty, sample_plain] sample_start))) =
     [[1, 2, 3], [4]] \<and>
   counter_value (snd (process_files sample_env False ''en-US'' ''BOOKM''
        [sample_chapter, sample_unreadable, sample_empty, sample_plain] sample_start)) = 5"
proof -
  have u: "file_lines sample_unreadable = None \<or> file_lines sample_unreadable = Some []"
    and m: "file_lines sample_empty = None \<or> file_lines sample_empty = Some []"
    by (simp_all add: sample_unreadable_def sample_empty_def)
  have v: "map (\<lambda>d. map globalSentenceIndex (chapter_sentences d))
     (dumped (fst (process_files sample_env False ''en-US'' ''BOOKM''
        [sample_chapter, sample_plain] sample_start))) = [[1, 2, 3], [4]]"
    "counter_value (snd (process_files sample_env False ''en-US'' ''BOOKM''
        [sample_chapter, sample_plain] sample_start)) = 5"
    by code_simp+
  from unreadable_units_skipped [OF u, of sample_env "''en-US''" "''BOOKM''" 1 sample_start
         False "[sample_empty, sample_plain]" "[sample_chapter]"]
       unreadable_units_skipped [OF m, of sample_env "''en-US''" "''BOOKM''" 1 sample_start
         False "[sample_plain]" "[sample_chapter]"] v
  show ?thesis
    by (simp del: process_files.simps)
qed

subsection \<open>The order of the chapters\<close>

text \<open>
  Claim C3 does not hold on the code. The chapter files are processed in the order of
  \<open>sorted\<close> on their paths, which compares the file names as strings: \<open>chapter10.txt\<close>
  comes before \<open>chapter2.txt\<close>. In a directory with these two files the sentence of
  chapter 10 gets the global index 1 and the sentence of chapter 2 the global index 2.
\<close>

theorem chapter_ten_before_chapter_two:
  "map path_parts (chapter_files_of sample_flat) = [[''chapter10.txt''], [''chapter2.txt'']] \<and>
   map (\<lambda>d. (chapterNumber d, map globalSentenceIndex (chapter_sentences d)))
     (dumped (fst (process_all_chapter_files sample_env sample_flat ''en-US'' ''BOOKM''))) =
     [(10, [1]), (2, [2])]"
  by code_simp

section \<open>Properties of the chapter extractor\<close>

lemma idle_step:
  assumes "idle st" and "\<not> is_chapter_marker l"
  shows "idle (extract_step e st l)"
    and "\<not> is_subbook_marker l \<Longrightarrow> extract_step e st l = st"
  using assms
  by (auto simp: idle_def is_chapter_marker_def is_subbook_marker_def extract_step_def Let_def
      split: option.splits)

lemma idle_foldl:
  "idle st \<Longrightarrow> list_all (\<lambda>l. \<not> is_chapter_marker l) pre \<Longrightarrow>
     foldl (extract_step e) st pre = foldl (extract_step e) st (filter is_subbook_marker pre)"
proof (induction pre arbitrary: st)
  case Nil
  show ?case by simp
next
  case (Cons l pre)
  from Cons.prems have nl: "\<not> is_chapter_marker l"
    and rest: "list_all (\<lambda>l. \<not> is_chapter_marker l) pre"
    by simp_all
  show ?case
  proof (cases "is_subbook_marker l")
    case True
    with Cons.IH [OF idle_step(1) [OF Cons.prems(1) nl] rest] show ?thesis by simp
  next
    case False
    with idle_step(2) [OF Cons.prems(1) nl False] Cons.IH [OF Cons.prems(1) rest]
    show ?thesis by simp
  qed
qed

lemma buffer_ok_step: "buffer_ok st \<Longrightarrow> buffer_ok (extract_step e st l)"
  by (auto simp: buffer_ok_def extract_step_def Let_def split: option.splits)

lemma buffer_ok_foldl: "buffer_ok st \<Longrightarrow> buffer_ok (foldl (extract_step e) st ls)"
  by (induction ls arbitrary: st) (auto simp: buffer_ok_step)

lemma buffer_ok_start: "buffer_ok (extract_start fs)"
  by (simp add: buffer_ok_def extract_start_def)

lemma idle_start: "idle (extract_start fs)"
  by (simp add: idle_def extract_start_def)

lemma chapter_marker_twice:
  assumes "buffer_ok st" and "is_chapter_marker m1" and "is_chapter_marker m2"
  shows "extract_step e (extract_step e st m1) m2 = extract_step e st m2"
  using assms
  by (auto simp: buffer_ok_def is_chapter_marker_def extract_step_def Let_def
      split: option.splits)

lemma chapter_marker_last:
  assumes "buffer_ok st" and "is_chapter_marker m1"
  shows "extract_finish e (extract_step e st m1) = extract_finish e st"
  using assms
  by (auto simp: buffer_ok_def is_chapter_marker_def extract_step_def extract_finish_def Let_def
      split: option.splits)

lemma chapter_step:
  assumes "marker_match ''SUBBOOK:'' (strip m) = None"
    and "marker_match ''CHAPTER:'' (strip m) = Some g"
  shows "extract_step e st m =
         (case current_chapter st of
            Some title \<Rightarrow>
              if chapter_lines_acc st \<noteq> []
              then st\<lparr>files := write_current_chapter e (current_output_dir st) title
                                  (chapter_lines_acc st) (files st),
                      chapter_lines_acc := []\<rparr>
              else st
          | None \<Rightarrow> st)\<lparr>current_chapter := Some (strip g)\<rparr>"
  using assms by (simp add: extract_step_def Let_def)

lemma subbook_step:
  assumes "marker_match ''SUBBOOK:'' (strip m) = Some g"
  shows "extract_step e st m =
         (let st1 = (case current_chapter st of
                       Some title \<Rightarrow>
                         if chapter_lines_acc st \<noteq> []
                         then st\<lparr>files := write_current_chapter e (current_output_dir st) title
                                             (chapter_lines_acc st) (files st),
                                 chapter_lines_acc := [], current_chapter := None\<rparr>
                         else st
                     | None \<Rightarrow> st)
          in st1\<lparr>current_subbook := Some (strip g),
                  current_subbook_index := current_subbook_index st1 + 1,
                  subbook_detected := True,
                  current_output_dir :=
                    [str_int (current_subbook_index st1 + 1) @ ''-'' @
                     sanitize_filename (strip g)],
                  made_dirs := made_dirs st1 @
                    [[str_int (current_subbook_index st1 + 1) @ ''-'' @
                      sanitize_filename (strip g)]]\<rparr>)"
  using assms by (simp add: extract_step_def Let_def)

lemma chapter_marker_subbook_marker:
  assumes ok: "buffer_ok st" and m1: "is_chapter_marker m1" and s: "is_subbook_marker s"
    and m2: "is_chapter_marker m2"
  shows "extract_step e (extract_step e (extract_step e st m1) s) m2 =
         extract_step e (extract_step e st s) m2"
proof -
  from m1 obtain g1 where g1: "marker_match ''SUBBOOK:'' (strip m1) = None"
      "marker_match ''CHAPTER:'' (strip m1) = Some g1"
    by (auto simp: is_chapter_marker_def)
  from m2 obtain g2 where g2: "marker_match ''SUBBOOK:'' (strip m2) = None"
      "marker_match ''CHAPTER:'' (strip m2) = Some g2"
    by (auto simp: is_chapter_marker_def)
  from s obtain gs where gs: "marker_match ''SUBBOOK:'' (strip s) = Some gs"
    by (auto simp: is_subbook_marker_def)
  note c1 = chapter_step [OF g1, of e]
  note c2 = chapter_step [OF g2, of e]
  note sb = subbook_step [OF gs, of e]
  show ?thesis
  proof (cases "current_chapter st")
    case None
    with ok have l: "chapter_lines_acc st = []" by (simp add: buffer_ok_def)
    show ?thesis unfolding c1 c2 sb using None l by (simp add: Let_def)
  next
    case (Some t)
    show ?thesis
    proof (cases "chapter_lines_acc st = []")
      case True
      show ?thesis unfolding c1 c2 sb using Some True by (simp add: Let_def)
    next
      case False
      show ?thesis unfolding c1 c2 sb using Some False by (simp add: Let_def)
    qed
  qed
qed

lemma empty_chapter_subbook_step:
  assumes "current_chapter st = Some title" and "chapter_lines_acc st = []"
    and s: "is_subbook_marker s"
  shows "current_chapter (extract_step e st s) = Some title"
    and "chapter_lines_acc (extract_step e st s) = []"
    and "files (extract_step e st s) = files st"
proof -
  from s obtain gs where gs: "marker_match ''SUBBOOK:'' (strip s) = Some gs"
    by (auto simp: is_subbook_marker_def)
  note sb = subbook_step [OF gs, of e st]
  show "current_chapter (extract_step e st s) = Some title"
    unfolding sb using assms(1,2) by (simp add: Let_def)
  show "chapter_lines_acc (extract_step e st s) = []"
    unfolding sb using assms(1,2) by (simp add: Let_def)
  show "files (extract_step e st s) = files st"
    unfolding sb using assms(1,2) by (simp add: Let_def)
qed

text \<open>
  What the extractor does discard. Lines before the first chapter marker do not reach any
  chapter file: when no line of a prefix of the text is a chapter marker, the run gives
  the same result with every line of the prefix removed that is not a subbook marker. A
  chapter marker followed at once by another chapter marker, by a subbook marker and then
  a chapter marker, or by the end of the text, can be removed without changing the result
  of the run, and \<open>write_current_chapter\<close> called with no lines writes nothing.
\<close>

lemma extractor_discards:
  "(list_all (\<lambda>l. \<not> is_chapter_marker l) pre \<longrightarrow>
      extract_lines e (pre @ rest) fs =
      extract_lines e (filter is_subbook_marker pre @ rest) fs) \<and>
   (is_chapter_marker m1 \<and> is_chapter_marker m2 \<longrightarrow>
      extract_lines e (pre @ m1 # m2 # rest) fs = extract_lines e (pre @ m2 # rest) fs) \<and>
   (is_chapter_marker m1 \<and> is_subbook_marker s \<and> is_chapter_marker m2 \<longrightarrow>
      extract_lines e (pre @ m1 # s # m2 # rest) fs =
      extract_lines e (pre @ s # m2 # rest) fs) \<and>
   (is_chapter_marker m1 \<longrightarrow> extract_lines e (pre @ [m1]) fs = extract_lines e pre fs) \<and>
   write_current_chapter e dir title [] fs = fs"
proof -
  have a: "extract_lines e (pre @ rest) fs =
           extract_lines e (filter is_subbook_marker pre @ rest) fs"
    if "list_all (\<lambda>l. \<not> is_chapter_marker l) pre"
    using idle_foldl [OF idle_start that, of e fs]
    by (simp add: extract_lines_def)
  have ok: "buffer_ok (foldl (extract_step e) (extract_start fs) pre)"
    by (rule buffer_ok_foldl [OF buffer_ok_start])
  have b: "extract_lines e (pre @ m1 # m2 # rest) fs = extract_lines e (pre @ m2 # rest) fs"
    if "is_chapter_marker m1" "is_chapter_marker m2"
    using chapter_marker_twice [OF ok that, of e]
    by (simp add: extract_lines_def)
  have c: "extract_lines e (pre @ [m1]) fs = extract_lines e pre fs"
    if "is_chapter_marker m1"
    using chapter_marker_last [OF ok that, of e]
    by (simp add: extract_lines_def)
  have b': "extract_lines e (pre @ m1 # s # m2 # rest) fs =
            extract_lines e (pre @ s # m2 # rest) fs"
    if "is_chapter_marker m1" "is_subbook_marker s" "is_chapter_marker m2"
    using chapter_marker_subbook_marker [OF ok that, of e]
    by (simp add: extract_lines_def)
  have d: "write_current_chapter e dir title [] fs = fs"
    by (simp add: write_current_chapter_def)
  from a b b' c d show ?thesis by blast
qed

lemma extractor_discards_sample:
  "splitlines sample_text = sample_lines \<and>
   extract_chapters sample_env sample_text [] =
     (True,
      [(([''1-Part One''], ''chapter1.txt''),
        ''The Golden Bird\<newline>\<newline>Once upon a time.\<newline>\<newline>The end.\<newline>'')],
      [[], [''1-Part One'']]) \<and>
   extract_lines sample_env sample_lines [] =
     extract_lines sample_env
       [''<!-- SUBBOOK: Part One -->'', ''<!-- CHAPTER: the golden bird -->'',
        ''Once upon a time.'', [], ''The end.''] []"
proof -
  have sl: "splitlines sample_text = sample_lines"
    by code_simp
  have v: "extract_lines sample_env sample_lines [] =
     (True,
      [(([''1-Part One''], ''chapter1.txt''),
        ''The Golden Bird\<newline>\<newline>Once upon a time.\<newline>\<newline>The end.\<newline>'')],
      [[], [''1-Part One'']])"
    by code_simp
  have m: "list_all (\<lambda>l. \<not> is_chapter_marker l)
             [''Preface line'', ''<!-- SUBBOOK: Part One -->'', ''stray'']"
    "is_chapter_marker ''<!-- CHAPTER: the empty one -->''"
    "is_chapter_marker ''<!-- CHAPTER: the golden bird -->''"
    "is_chapter_marker ''<!-- CHAPTER: last -->''"
    "filter is_subbook_marker [''Preface line'', ''<!-- SUBBOOK: Part One -->'', ''stray''] =
       [''<!-- SUBBOOK: Part One -->'']"
    by code_simp+
  note t1 = extractor_discards [of
      "[''Preface line'', ''<!-- SUBBOOK: Part One -->'', ''stray'']" sample_env
      "[''<!-- CHAPTER: the empty one -->'', ''<!-- CHAPTER: the golden bird -->'',
        ''Once upon a time.'', [], ''The end.'', ''<!-- CHAPTER: last -->'']" "[]"]
  note t2 = extractor_discards [of "[''<!-- SUBBOOK: Part One -->'']" sample_env
      "[''Once upon a time.'', [], ''The end.'', ''<!-- CHAPTER: last -->'']" "[]"
      "''<!-- CHAPTER: the empty one -->''" "''<!-- CHAPTER: the golden bird -->''"]
  note t3 = extractor_discards [of
      "[''<!-- SUBBOOK: Part One -->'', ''<!-- CHAPTER: the golden bird -->'',
        ''Once upon a time.'', [], ''The end.'']" sample_env "[]" "[]"
      "''<!-- CHAPTER: last -->''"]
  from t1 m have e1: "extract_lines sample_env sample_lines [] =
      extract_lines sample_env
        [''<!-- SUBBOOK: Part One -->'', ''<!-- CHAPTER: the empty one -->'',
         ''<!-- CHAPTER: the golden bird -->'', ''Once upon a time.'', [], ''The end.'',
         ''<!-- CHAPTER: last -->''] []"
    by (simp add: sample_lines_def)
  from t2 m have e2: "extract_lines sample_env
        [''<!-- SUBBOOK: Part One -->'', ''<!-- CHAPTER: the empty one -->'',
         ''<!-- CHAPTER: the golden bird -->'', ''Once upon a time.'', [], ''The end.'',
         ''<!-- CHAPTER: last -->''] [] =
      extract_lines sample_env
        [''<!-- SUBBOOK: Part One -->'', ''<!-- CHAPTER: the golden bird -->'',
         ''Once upon a time.'', [], ''The end.'', ''<!-- CHAPTER: last -->''] []"
    by simp
  from t3 m have e3: "extract_lines sample_env
        [''<!-- SUBBOOK: Part One -->'', ''<!-- CHAPTER: the golden bird -->'',
         ''Once upon a time.'', [], ''The end.'', ''<!-- CHAPTER: last -->''] [] =
      extract_lines sample_env
        [''<!-- SUBBOOK: Part One -->'', ''<!-- CHAPTER: the golden bird -->'',
         ''Once upon a time.'', [], ''The end.''] []"
    by simp
  from sl v e1 e2 e3 show ?thesis
    by (simp add: extract_chapters_def)
qed

text \<open>
  Claim C9 does not hold on the code. A chapter marker with no body line after it must
  give no chapter file, and on a subbook marker the chapter in progress is finished. In
  \<open>extract_chapters\<close> the assignment \<open>current_chapter = None\<close> of the subbook branch
  stands under the test that the chapter has lines, so a chapter without lines stays in
  progress across the subbook marker and takes the lines that follow it. In the text
  \<open>sample_stray_text\<close> the chapter \<open>alpha\<close> has no body line: the run writes a file for it,
  holding the line \<open>stray\<close> of the subbook that follows, and the chapter \<open>beta\<close> becomes
  chapter 2. Without the marker of \<open>alpha\<close> the line \<open>stray\<close> reaches no file and \<open>beta\<close>
  is chapter 1.
\<close>

theorem empty_chapter_kept_across_subbook_marker:
  "splitlines sample_stray_text =
     [''<!-- CHAPTER: alpha -->'', ''<!-- SUBBOOK: Part One -->'', ''stray'',
      ''<!-- CHAPTER: beta -->'', ''body''] \<and>
   extract_chapters sample_env sample_stray_text [] =
     (True,
      [(([''1-Part One''], ''chapter1.txt''), ''Alpha\<newline>\<newline>stray\<newline>''),
       (([''1-Part One''], ''chapter2.txt''), ''Beta\<newline>\<newline>body\<newline>'')],
      [[], [''1-Part One'']]) \<and>
   extract_lines sample_env
     [''<!-- SUBBOOK: Part One -->'', ''stray'', ''<!-- CHAPTER: beta -->'', ''body''] [] =
     (True,
      [(([''1-Part One''], ''chapter1.txt''), ''Beta\<newline>\<newline>body\<newline>'')],
      [[], [''1-Part One'']])"
  by code_simp

section \<open>Properties of the translator\<close>

subsection \<open>The loops on a freshly loaded tree\<close>

lemma map_sentences_length:
  "map_sentences body calls ss = Some (ss', calls') \<Longrightarrow> length ss' = length ss"
  by (induction ss arbitrary: calls ss') (auto split: option.splits)

lemma each_sentence_block:
  "sentence_objs st = pre @ ss @ post \<Longrightarrow>
   each_sentence (on_sentence body) st [length pre..<length pre + length ss] =
     (case map_sentences body (translate_calls st) ss of
        None \<Rightarrow> None
      | Some (ss', calls') \<Rightarrow>
          Some (st\<lparr>sentence_objs := pre @ ss' @ post, translate_calls := calls'\<rparr>))"
proof (induction ss arbitrary: pre st)
  case Nil
  then show ?case by simp
next
  case (Cons s rest)
  have range: "[length pre..<length pre + length (s # rest)] =
               length pre # [length (pre @ [s])..<length (pre @ [s]) + length rest]"
    using upt_conv_Cons [of "length pre" "length pre + length (s # rest)"] by simp
  have at: "sentence_objs st ! length pre = s" and lt: "length pre < length (sentence_objs st)"
    using Cons.prems by simp_all
  show ?case
  proof (cases "body (translate_calls st) s")
    case None
    with at lt show ?thesis
      unfolding range by (simp add: on_sentence_def)
  next
    case (Some r)
    obtain s1 calls1 where r: "r = (s1, calls1)" by (cases r)
    define st1 where "st1 = st\<lparr>sentence_objs := (sentence_objs st)[length pre := s1],
                                translate_calls := calls1\<rparr>"
    have on: "on_sentence body st (length pre) = Some st1"
      using at lt Some r by (simp add: on_sentence_def st1_def)
    have so: "sentence_objs st1 = (pre @ [s1]) @ rest @ post"
      using Cons.prems by (simp add: st1_def list_update_append)
    have up: "st1\<lparr>sentence_objs := (pre @ [s1]) @ x @ post, translate_calls := k\<rparr> =
              st\<lparr>sentence_objs := pre @ (s1 # x) @ post, translate_calls := k\<rparr>" for x k
      by (simp add: st1_def)
    show ?thesis
      unfolding range
      using on Some r Cons.IH [OF so] up
      by (simp add: st1_def split: option.splits)
  qed
qed

lemma length_paragraph_objects [simp]: "length (paragraph_objects ns ps) = length ps"
  by (induction ps arbitrary: ns) auto

lemma map_paragraphs_shape:
  "map_paragraphs body calls ps = Some (ps', calls') \<Longrightarrow>
     paragraph_objects ns ps' = paragraph_objects ns ps \<and> length ps' = length ps \<and>
     length (concat (map sentences ps')) = length (concat (map sentences ps))"
proof (induction ps arbitrary: calls ps' ns)
  case Nil
  then show ?case by simp
next
  case (Cons p rest)
  from Cons.prems obtain ss calls1 rest1 where
    a: "map_sentences body calls (sentences p) = Some (ss, calls1)"
    and b: "map_paragraphs body calls1 rest = Some (rest1, calls')"
    and c: "ps' = p\<lparr>sentences := ss\<rparr> # rest1"
    by (auto split: option.splits)
  from map_sentences_length [OF a] Cons.IH [OF b] c show ?case by simp
qed

lemma each_paragraph_block:
  "paragraph_objs st = ppre @ paragraph_objects (length pre) ps @ ppost \<Longrightarrow>
   sentence_objs st = pre @ concat (map sentences ps) @ post \<Longrightarrow>
   each_paragraph (on_sentence body) st [length ppre..<length ppre + length ps] =
     (case map_paragraphs body (translate_calls st) ps of
        None \<Rightarrow> None
      | Some (ps', calls') \<Rightarrow>
          Some (st\<lparr>sentence_objs := pre @ concat (map sentences ps') @ post,
                   translate_calls := calls'\<rparr>))"
proof (induction ps arbitrary: ppre pre st)
  case Nil
  then show ?case by simp
next
  case (Cons p rest)
  define po where "po = \<lparr>obj_paragraphID = paragraphID p, obj_paragraphIndex = paragraphIndex p,
                          obj_sentences = [length pre..<length pre + length (sentences p)]\<rparr>"
  have range: "[length ppre..<length ppre + length (p # rest)] =
               length ppre # [length (ppre @ [po])..<length (ppre @ [po]) + length rest]"
    using upt_conv_Cons [of "length ppre" "length ppre + length (p # rest)"] by simp
  have pobjs: "paragraph_objs st =
                 ppre @ po # paragraph_objects (length pre + length (sentences p)) rest @ ppost"
    using Cons.prems(1) by (simp add: po_def)
  have at: "paragraph_objs st ! length ppre = po"
    and lt: "length ppre < length (paragraph_objs st)"
    using pobjs by simp_all
  have sobjs: "sentence_objs st = pre @ sentences p @ (concat (map sentences rest) @ post)"
    using Cons.prems(2) by simp
  note blk = each_sentence_block [OF sobjs, of body]
  show ?case
  proof (cases "map_sentences body (translate_calls st) (sentences p)")
    case None
    with blk at lt show ?thesis
      unfolding range by (simp add: po_def)
  next
    case (Some r)
    obtain ss calls1 where r: "r = (ss, calls1)" by (cases r)
    define st1 where "st1 = st\<lparr>sentence_objs := pre @ ss @ (concat (map sentences rest) @ post),
                                translate_calls := calls1\<rparr>"
    have len: "length ss = length (sentences p)"
      using map_sentences_length Some r by blast
    have es: "each_sentence (on_sentence body) st (obj_sentences po) = Some st1"
      using blk Some r by (simp add: po_def st1_def)
    have p1: "paragraph_objs st1 =
                (ppre @ [po]) @ paragraph_objects (length (pre @ ss)) rest @ ppost"
      using pobjs len by (simp add: st1_def)
    have s1: "sentence_objs st1 = (pre @ ss) @ concat (map sentences rest) @ post"
      by (simp add: st1_def)
    have up: "st1\<lparr>sentence_objs := (pre @ ss) @ x @ post, translate_calls := k\<rparr> =
              st\<lparr>sentence_objs := pre @ (ss @ x) @ post, translate_calls := k\<rparr>" for x k
      by (simp add: st1_def)
    have c1: "translate_calls st1 = calls1"
      by (simp add: st1_def)
    show ?thesis
      unfolding range
      using at lt es Some r Cons.IH [OF p1 s1] up c1
      by (simp split: option.splits)
  qed
qed

lemma map_nth_block:
  "map (\<lambda>a. (pre @ ss @ post) ! a) [length pre..<length pre + length ss] = ss"
  by (rule nth_equalityI) (simp_all add: nth_append)

lemma read_sentences_block:
  "sentence_objs st = pre @ ss @ post \<Longrightarrow>
     read_sentences st [length pre..<length pre + length ss] = Some ss"
  by (simp add: read_sentences_def list_all_iff map_nth_block)

lemma read_paragraphs_block:
  "paragraph_objs st = ppre @ paragraph_objects (length pre) ps @ ppost \<Longrightarrow>
   sentence_objs st = pre @ concat (map sentences ps) @ post \<Longrightarrow>
   read_paragraphs st [length ppre..<length ppre + length ps] = Some ps"
proof (induction ps arbitrary: ppre pre)
  case Nil
  then show ?case by simp
next
  case (Cons p rest)
  define po where "po = \<lparr>obj_paragraphID = paragraphID p, obj_paragraphIndex = paragraphIndex p,
                          obj_sentences = [length pre..<length pre + length (sentences p)]\<rparr>"
  have range: "[length ppre..<length ppre + length (p # rest)] =
               length ppre # [length (ppre @ [po])..<length (ppre @ [po]) + length rest]"
    using upt_conv_Cons [of "length ppre" "length ppre + length (p # rest)"] by simp
  have pobjs: "paragraph_objs st =
                 (ppre @ [po]) @ paragraph_objects (length (pre @ sentences p)) rest @ ppost"
    using Cons.prems(1) by (simp add: po_def)
  have at: "paragraph_objs st ! length ppre = po"
    and lt: "length ppre < length (paragraph_objs st)"
    using pobjs by simp_all
  have sobjs: "sentence_objs st = pre @ sentences p @ (concat (map sentences rest) @ post)"
    and sobjs': "sentence_objs st = (pre @ sentences p) @ concat (map sentences rest) @ post"
    using Cons.prems(2) by simp_all
  have rs: "read_sentences st (obj_sentences po) = Some (sentences p)"
    using read_sentences_block [OF sobjs] by (simp add: po_def)
  show ?case
    unfolding range
    using at lt rs Cons.IH [OF pobjs sobjs']
    by (simp add: po_def)
qed

lemma kept_refl: "kept st st"
  by (simp add: kept_def)

lemma take_prefix_append: "take (length xs) ys = xs \<Longrightarrow> ys = xs @ drop (length xs) ys"
  by (metis append_take_drop_id)

lemma kept_trans: "kept a b \<Longrightarrow> kept b c \<Longrightarrow> kept a c"
proof -
  assume ab: "kept a b" and bc: "kept b c"
  have tr: "take (length xs) zs = xs"
    if "take (length xs) ys = xs" "take (length ys) zs = ys" for xs ys zs :: "'a list"
  proof -
    from that obtain e f where "ys = xs @ e" "zs = ys @ f"
      using take_prefix_append by blast
    then show ?thesis by simp
  qed
  from ab bc show ?thesis
    unfolding kept_def by (blast intro: tr)
qed

lemma kept_nth:
  assumes "take (length xs) ys = xs" and "i < length xs"
  shows "ys ! i = xs ! i" and "i < length ys"
proof -
  from assms(1) obtain e where "ys = xs @ e"
    using take_prefix_append by blast
  with assms(2) show "ys ! i = xs ! i" "i < length ys"
    by (simp_all add: nth_append)
qed

lemma kept_read_sentences:
  assumes "kept st st'" and "read_sentences st sas = Some ss"
  shows "read_sentences st' sas = Some ss"
proof -
  from assms(1) have t: "take (length (sentence_objs st)) (sentence_objs st') = sentence_objs st"
    by (simp add: kept_def)
  from assms(2) have b: "list_all (\<lambda>a. a < length (sentence_objs st)) sas"
    and m: "map (\<lambda>a. sentence_objs st ! a) sas = ss"
    by (auto simp: read_sentences_def split: if_splits)
  from b have "list_all (\<lambda>a. a < length (sentence_objs st')) sas"
    using kept_nth(2) [OF t] by (auto simp: list_all_iff)
  moreover from b have "map (\<lambda>a. sentence_objs st' ! a) sas = map (\<lambda>a. sentence_objs st ! a) sas"
    using kept_nth(1) [OF t] by (auto simp: list_all_iff)
  ultimately show ?thesis
    using m by (simp add: read_sentences_def)
qed

lemma kept_read_paragraphs:
  assumes "kept st st'"
  shows "read_paragraphs st pas = Some ps \<Longrightarrow> read_paragraphs st' pas = Some ps"
proof (induction pas arbitrary: ps)
  case Nil
  then show ?case by simp
next
  case (Cons pa pas)
  from assms have t: "take (length (paragraph_objs st)) (paragraph_objs st') = paragraph_objs st"
    by (simp add: kept_def)
  from Cons.prems have lt: "pa < length (paragraph_objs st)"
    by (simp split: if_splits)
  from Cons.prems lt obtain ss rest where
    rs: "read_sentences st (obj_sentences (paragraph_objs st ! pa)) = Some ss"
    and rp: "read_paragraphs st pas = Some rest"
    and ps: "ps = \<lparr>paragraphID = obj_paragraphID (paragraph_objs st ! pa),
                    paragraphIndex = obj_paragraphIndex (paragraph_objs st ! pa),
                    sentences = ss\<rparr> # rest"
    by (auto split: option.splits)
  from kept_nth [OF t lt] kept_read_sentences [OF assms rs] Cons.IH [OF rp] ps
  show ?case by simp
qed

lemma kept_json_dumps:
  assumes "kept st st'" and "json_dumps st a = Some v"
  shows "json_dumps st' a = Some v"
proof -
  from assms(1) have t: "take (length (chapter_objs st)) (chapter_objs st') = chapter_objs st"
    by (simp add: kept_def)
  from assms(2) have lt: "a < length (chapter_objs st)"
    by (simp add: json_dumps_def split: if_splits)
  from assms(2) lt obtain ps where
    rp: "read_paragraphs st (obj_paragraphs (chapter_objs st ! a)) = Some ps"
    by (auto simp: json_dumps_def split: option.splits)
  from kept_nth [OF t lt] kept_read_paragraphs [OF assms(1) rp] assms(2) lt rp
  show ?thesis by (simp add: json_dumps_def)
qed

lemma concat_paragraph_objects:
  "concat (map obj_sentences (paragraph_objects ns ps)) =
     [ns..<ns + length (concat (map sentences ps))]"
proof (induction ps arbitrary: ns)
  case Nil
  show ?case by simp
next
  case (Cons p ps)
  have "[ns..<ns + length (sentences p)] @
        [ns + length (sentences p)..<ns + length (sentences p) + length (concat (map sentences ps))]
        = [ns..<ns + length (sentences p) + length (concat (map sentences ps))]"
    by (simp add: upt_add_eq_append [symmetric])
  with Cons show ?case by (simp add: add.assoc)
qed

lemma copy_step:
  assumes tr: "translated_record te n t (translate_calls st) v = Some (out, calls')"
  shows "\<exists>st4 co S.
           copy_result te n t st v = Some st4 \<and>
           json_dumps st4 (length (chapter_objs st)) = Some out \<and>
           chapter_objs st4 = chapter_objs st @ [co] \<and>
           obj_paragraphs co =
             [length (paragraph_objs st)..<length (paragraph_objs st) + length (paragraphs v)] \<and>
           paragraph_objs st4 =
             paragraph_objs st @ paragraph_objects (length (sentence_objs st)) (paragraphs v) \<and>
           sentence_objs st4 = sentence_objs st @ S \<and>
           length S = length (concat (map sentences (paragraphs v))) \<and>
           translate_calls st4 = calls'"
proof -
  from tr obtain ps1 calls1 ps2 calls2 where
    m1: "map_paragraphs (process_sentence_fields te n t) (translate_calls st) (paragraphs v) =
           Some (ps1, calls1)"
    and m2: "map_paragraphs (update_audio_body n t) calls1 ps1 = Some (ps2, calls2)"
    and out: "out = v\<lparr>language := t, paragraphs := ps2\<rparr>" and c: "calls' = calls2"
    by (auto simp: translated_record_def split: option.splits)
  define co where "co = \<lparr>obj_chapterID = chapterID v, obj_language = t,
      obj_chapterNumber = chapterNumber v, obj_chapterTitle = chapterTitle v,
      obj_paragraphs = [length (paragraph_objs st)..<
                        length (paragraph_objs st) + length (paragraphs v)]\<rparr>"
  define st2 where "st2 = set_language (fst (json_loads st v)) (snd (json_loads st v)) t"
  have c2: "chapter_objs st2 = chapter_objs st @ [co]"
    and p2: "paragraph_objs st2 =
               paragraph_objs st @ paragraph_objects (length (sentence_objs st)) (paragraphs v) @ []"
    and s2: "sentence_objs st2 = sentence_objs st @ concat (map sentences (paragraphs v)) @ []"
    and k2: "translate_calls st2 = translate_calls st"
    by (simp_all add: st2_def set_language_def json_loads_def co_def)
  have cn: "snd (json_loads st v) = length (chapter_objs st)"
    by (simp add: json_loads_def)
  define st3 where "st3 = st2\<lparr>sentence_objs := sentence_objs st @ concat (map sentences ps1) @ [],
                              translate_calls := calls1\<rparr>"
  have t3: "translate_content te n t st2 (length (chapter_objs st)) = Some st3"
    using each_paragraph_block [OF p2 s2, of "process_sentence_fields te n t"] m1
    by (simp add: translate_content_def each_content_sentence_def c2 co_def k2 st3_def
        process_sentence_def)
  note sh1 = map_paragraphs_shape [OF m1]
  note sh2 = map_paragraphs_shape [OF m2]
  have p3: "paragraph_objs st3 =
               paragraph_objs st @ paragraph_objects (length (sentence_objs st)) ps1 @ []"
    and s3: "sentence_objs st3 = sentence_objs st @ concat (map sentences ps1) @ []"
    and c3: "chapter_objs st3 = chapter_objs st @ [co]"
    and k3: "translate_calls st3 = calls1"
    using sh1 by (simp_all add: st3_def p2 c2)
  define st4 where "st4 = st3\<lparr>sentence_objs := sentence_objs st @ concat (map sentences ps2) @ [],
                              translate_calls := calls2\<rparr>"
  have t4: "update_audio_files n t st3 (length (chapter_objs st)) = Some st4"
    using each_paragraph_block [OF p3 s3, of "update_audio_body n t"] m2 sh1
    by (simp add: update_audio_files_def each_content_sentence_def c3 co_def k3 st4_def
        update_audio_file_def)
  have p4: "paragraph_objs st4 =
               paragraph_objs st @ paragraph_objects (length (sentence_objs st)) ps2 @ []"
    and s4: "sentence_objs st4 = sentence_objs st @ concat (map sentences ps2) @ []"
    and c4: "chapter_objs st4 = chapter_objs st @ [co]"
    and k4: "translate_calls st4 = calls2"
    using sh2 by (simp_all add: st4_def p3 c3)
  have rd: "read_paragraphs st4
              [length (paragraph_objs st)..<length (paragraph_objs st) + length ps2] = Some ps2"
    by (rule read_paragraphs_block [OF p4 s4])
  have jd: "json_dumps st4 (length (chapter_objs st)) = Some out"
    using rd sh1 sh2 by (simp add: json_dumps_def c4 co_def out)
  have st2': "set_language (fst (json_loads st v)) (length (chapter_objs st)) t = st2"
    by (simp add: st2_def cn)
  have cr: "copy_result te n t st v = Some st4"
    unfolding copy_result_def cn st2' using t3 t4 by simp
  have p4': "paragraph_objs st4 =
               paragraph_objs st @ paragraph_objects (length (sentence_objs st)) (paragraphs v)"
    using p4 sh1 sh2 by simp
  have ls: "length (concat (map sentences ps2)) = length (concat (map sentences (paragraphs v)))"
    using sh1 sh2 by simp
  have oc: "obj_paragraphs co =
             [length (paragraph_objs st)..<length (paragraph_objs st) + length (paragraphs v)]"
    by (simp add: co_def)
  from cr jd c4 oc p4' s4 ls k4 c show ?thesis
    by (intro exI [of _ st4] exI [of _ co] exI [of _ "concat (map sentences ps2)"]) simp
qed

lemma concat_blocks: "concat (blocks b m k) = [b..<b + k * m]"
proof (induction k arbitrary: b)
  case 0
  show ?case by simp
next
  case (Suc k)
  have "[b..<b + m] @ [b + m..<b + m + k * m] = [b..<b + m + k * m]"
    by (simp add: upt_add_eq_append [symmetric])
  with Suc show ?case by (simp add: add.assoc add.commute)
qed

lemma re_sub_suffix_total: "no_backslash t \<Longrightarrow> \<exists>u. re_sub_suffix n t ext s = Some u"
  by (simp add: re_sub_suffix_def no_backslash_def Let_def)

lemma process_sentence_fields_total:
  "no_backslash t \<Longrightarrow> \<exists>r. process_sentence_fields te n t k s = Some r"
  using re_sub_suffix_total [of t n "''.aac''" "audioFile s"]
  by (auto simp: process_sentence_fields_def Let_def split: option.splits)

lemma update_audio_body_total: "no_backslash t \<Longrightarrow> \<exists>r. update_audio_body n t k s = Some r"
  using re_sub_suffix_total [of t n "''.aac''" "audioFile s"]
  by (auto simp: update_audio_body_def update_audio_fields_def split: option.splits)

lemma map_sentences_total:
  "(\<And>k s. \<exists>r. body k s = Some r) \<Longrightarrow> \<exists>r. map_sentences body calls ss = Some r"
proof (induction ss arbitrary: calls)
  case Nil
  show ?case by simp
next
  case (Cons s ss)
  from Cons.prems obtain s1 c1 where a: "body calls s = Some (s1, c1)"
    by (metis surj_pair)
  from Cons.IH [OF Cons.prems] obtain r where "map_sentences body c1 ss = Some r"
    by blast
  with a show ?case by (cases r) simp
qed

lemma map_paragraphs_total:
  "(\<And>k s. \<exists>r. body k s = Some r) \<Longrightarrow> \<exists>r. map_paragraphs body calls ps = Some r"
proof (induction ps arbitrary: calls)
  case Nil
  show ?case by simp
next
  case (Cons p ps)
  from map_sentences_total [of body calls "sentences p"] Cons.prems
  obtain ss c1 where a: "map_sentences body calls (sentences p) = Some (ss, c1)"
    by (metis surj_pair)
  from Cons.IH [OF Cons.prems] obtain r where "map_paragraphs body c1 ps = Some r"
    by blast
  with a show ?case by (cases r) simp
qed

lemma translated_record_total:
  assumes "no_backslash t"
  shows "\<exists>out calls'. translated_record te n t calls v = Some (out, calls')"
proof -
  from map_paragraphs_total [of "process_sentence_fields te n t" calls "paragraphs v"]
    process_sentence_fields_total [OF assms]
  obtain ps1 c1 where
    a: "map_paragraphs (process_sentence_fields te n t) calls (paragraphs v) = Some (ps1, c1)"
    by (metis surj_pair)
  from map_paragraphs_total [of "update_audio_body n t" c1 ps1]
    update_audio_body_total [OF assms]
  obtain ps2 c2 where b: "map_paragraphs (update_audio_body n t) c1 ps1 = Some (ps2, c2)"
    by (metis surj_pair)
  from a b show ?thesis by (simp add: translated_record_def)
qed

lemma output_path_total:
  assumes "no_backslash t"
  shows "\<exists>p. output_path rel n t = Some p"
proof -
  from re_sub_suffix_total [OF assms] obtain u where
    "re_sub_suffix n t ''.json'' (if rel = [] then [] else last rel) = Some u"
    by blast
  then show ?thesis
    by (simp add: output_path_def new_filename_def)
qed

lemma translate_targets_Cons:
  "translate_targets te rel n a st (t # rest) =
     (case json_dumps st a of
        None \<Rightarrow> None
      | Some v \<Rightarrow>
          (case copy_result te n t st v of
             None \<Rightarrow> None
           | Some st4 \<Rightarrow>
               (case output_path rel n t of
                  None \<Rightarrow> None
                | Some path \<Rightarrow>
                    (case json_dumps st4 (length (chapter_objs st)) of
                       None \<Rightarrow> None
                     | Some out \<Rightarrow>
                         (case translate_targets te rel n a st4 rest of
                            None \<Rightarrow> None
                          | Some (st5, copies, outs) \<Rightarrow>
                              Some (st5, length (chapter_objs st) # copies,
                                    (path, out) # outs))))))"
  by (simp add: copy_result_def split_beta Let_def json_loads_def split: option.splits)

lemma copy_addrs:
  assumes c4: "chapter_objs st4 = chapter_objs st @ [co]"
    and oc: "obj_paragraphs co =
               [length (paragraph_objs st)..<length (paragraph_objs st) + length ps]"
    and p4: "paragraph_objs st4 =
               paragraph_objs st @ paragraph_objects (length (sentence_objs st)) ps"
    and k: "kept st4 st'"
  shows "paragraph_addrs st' (length (chapter_objs st)) =
           [length (paragraph_objs st)..<length (paragraph_objs st) + length ps]"
    and "sentence_addrs st' (length (chapter_objs st)) =
           [length (sentence_objs st)..<
            length (sentence_objs st) + length (concat (map sentences ps))]"
proof -
  from k have tc: "take (length (chapter_objs st4)) (chapter_objs st') = chapter_objs st4"
    and tp: "take (length (paragraph_objs st4)) (paragraph_objs st') = paragraph_objs st4"
    by (simp_all add: kept_def)
  have "chapter_objs st' ! length (chapter_objs st) = co"
    using kept_nth(1) [OF tc, of "length (chapter_objs st)"] c4 by simp
  with oc show pa: "paragraph_addrs st' (length (chapter_objs st)) =
           [length (paragraph_objs st)..<length (paragraph_objs st) + length ps]"
    by (simp add: paragraph_addrs_def)
  have "map (\<lambda>pa. obj_sentences (paragraph_objs st' ! pa))
          [length (paragraph_objs st)..<length (paragraph_objs st) + length ps] =
        map (\<lambda>pa. obj_sentences (paragraph_objs st4 ! pa))
          [length (paragraph_objs st)..<length (paragraph_objs st) + length ps]"
    using kept_nth(1) [OF tp] p4 by simp
  also have "\<dots> = map obj_sentences (map (\<lambda>pa. paragraph_objs st4 ! pa)
          [length (paragraph_objs st)..<length (paragraph_objs st) + length ps])"
    by simp
  also have "map (\<lambda>pa. paragraph_objs st4 ! pa)
          [length (paragraph_objs st)..<length (paragraph_objs st) + length ps] =
        paragraph_objects (length (sentence_objs st)) ps"
    using map_nth_block [of "paragraph_objs st"
        "paragraph_objects (length (sentence_objs st)) ps" "[]"] p4
    by simp
  finally show "sentence_addrs st' (length (chapter_objs st)) =
           [length (sentence_objs st)..<
            length (sentence_objs st) + length (concat (map sentences ps))]"
    by (simp add: sentence_addrs_def pa concat_paragraph_objects)
qed

lemma translate_targets_correct:
  assumes "list_all no_backslash targets" and "json_dumps st a = Some v"
  shows "\<exists>st' outs paths.
           translated_records te n (translate_calls st) v targets = Some outs \<and>
           those (map (output_path rel n) targets) = Some paths \<and>
           translate_targets te rel n a st targets =
             Some (st', [length (chapter_objs st)..<length (chapter_objs st) + length targets],
                   zip paths outs) \<and>
           kept st st' \<and>
           map (json_dumps st')
               [length (chapter_objs st)..<length (chapter_objs st) + length targets] =
             map Some outs \<and>
           map (paragraph_addrs st')
               [length (chapter_objs st)..<length (chapter_objs st) + length targets] =
             blocks (length (paragraph_objs st)) (length (paragraphs v)) (length targets) \<and>
           map (sentence_addrs st')
               [length (chapter_objs st)..<length (chapter_objs st) + length targets] =
             blocks (length (sentence_objs st)) (length (concat (map sentences (paragraphs v))))
               (length targets)"
  using assms
proof (induction targets arbitrary: st)
  case Nil
  show ?case by (simp add: kept_refl)
next
  case (Cons t rest)
  from Cons.prems have nb: "no_backslash t" and nbr: "list_all no_backslash rest"
    by simp_all
  note jd = Cons.prems(2)
  from translated_record_total [OF nb] obtain out calls' where
    tr: "translated_record te n t (translate_calls st) v = Some (out, calls')"
    by blast
  from copy_step [OF tr] obtain st4 co S where
    cr: "copy_result te n t st v = Some st4"
    and j4: "json_dumps st4 (length (chapter_objs st)) = Some out"
    and c4: "chapter_objs st4 = chapter_objs st @ [co]"
    and oc: "obj_paragraphs co =
               [length (paragraph_objs st)..<length (paragraph_objs st) + length (paragraphs v)]"
    and p4: "paragraph_objs st4 =
               paragraph_objs st @ paragraph_objects (length (sentence_objs st)) (paragraphs v)"
    and s4: "sentence_objs st4 = sentence_objs st @ S"
    and lS: "length S = length (concat (map sentences (paragraphs v)))"
    and k4: "translate_calls st4 = calls'"
    by blast
  have kept4: "kept st st4"
    by (simp add: kept_def c4 p4 s4)
  from output_path_total [OF nb] obtain path where op: "output_path rel n t = Some path"
    by blast
  from Cons.IH [OF nbr kept_json_dumps [OF kept4 jd]] obtain st' outs paths where
    r1: "translated_records te n (translate_calls st4) v rest = Some outs"
    and r2: "those (map (output_path rel n) rest) = Some paths"
    and r3: "translate_targets te rel n a st4 rest =
               Some (st', [length (chapter_objs st4)..<length (chapter_objs st4) + length rest],
                     zip paths outs)"
    and r4: "kept st4 st'"
    and r5: "map (json_dumps st')
               [length (chapter_objs st4)..<length (chapter_objs st4) + length rest] =
             map Some outs"
    and r6: "map (paragraph_addrs st')
               [length (chapter_objs st4)..<length (chapter_objs st4) + length rest] =
             blocks (length (paragraph_objs st4)) (length (paragraphs v)) (length rest)"
    and r7: "map (sentence_addrs st')
               [length (chapter_objs st4)..<length (chapter_objs st4) + length rest] =
             blocks (length (sentence_objs st4)) (length (concat (map sentences (paragraphs v))))
               (length rest)"
    by blast
  have range: "[length (chapter_objs st)..<length (chapter_objs st) + length (t # rest)] =
               length (chapter_objs st) #
               [length (chapter_objs st4)..<length (chapter_objs st4) + length rest]"
    using upt_conv_Cons [of "length (chapter_objs st)" "length (chapter_objs st) + length (t # rest)"]
    by (simp add: c4)
  note ad = copy_addrs [OF c4 oc p4 r4]
  have a1: "translated_records te n (translate_calls st) v (t # rest) = Some (out # outs)"
    using tr r1 k4 by simp
  have a2: "those (map (output_path rel n) (t # rest)) = Some (path # paths)"
    using op r2 by simp
  have a3: "translate_targets te rel n a st (t # rest) =
             Some (st', [length (chapter_objs st)..<length (chapter_objs st) + length (t # rest)],
                   zip (path # paths) (out # outs))"
    unfolding translate_targets_Cons range
    using jd cr op j4 r3 by simp
  have a4: "kept st st'"
    by (rule kept_trans [OF kept4 r4])
  have a5: "map (json_dumps st')
               [length (chapter_objs st)..<length (chapter_objs st) + length (t # rest)] =
             map Some (out # outs)"
    unfolding range using r5 kept_json_dumps [OF r4 j4] by simp
  have a6: "map (paragraph_addrs st')
               [length (chapter_objs st)..<length (chapter_objs st) + length (t # rest)] =
             blocks (length (paragraph_objs st)) (length (paragraphs v)) (length (t # rest))"
    unfolding range using r6 ad(1) by (simp add: p4)
  have a7: "map (sentence_addrs st')
               [length (chapter_objs st)..<length (chapter_objs st) + length (t # rest)] =
             blocks (length (sentence_objs st)) (length (concat (map sentences (paragraphs v))))
               (length (t # rest))"
    unfolding range using r7 ad(2) by (simp add: s4 lS)
  from a1 a2 a3 a4 a5 a6 a7 show ?case by blast
qed

lemma json_loads_dumps:
  "json_dumps (fst (json_loads st v)) (snd (json_loads st v)) = Some v"
proof -
  define st1 where "st1 = fst (json_loads st v)"
  have p: "paragraph_objs st1 =
             paragraph_objs st @ paragraph_objects (length (sentence_objs st)) (paragraphs v) @ []"
    and s: "sentence_objs st1 = sentence_objs st @ concat (map sentences (paragraphs v)) @ []"
    by (simp_all add: st1_def json_loads_def)
  from read_paragraphs_block [OF p s] show ?thesis
    by (simp add: json_dumps_def json_loads_def st1_def)
qed

lemma translated_records_language:
  "translated_records te n calls v targets = Some outs \<Longrightarrow> map language outs = targets"
proof (induction targets arbitrary: calls outs)
  case Nil
  then show ?case by simp
next
  case (Cons t rest)
  from Cons.prems obtain out calls1 outs1 where
    a: "translated_record te n t calls v = Some (out, calls1)"
    and b: "translated_records te n calls1 v rest = Some outs1"
    and c: "outs = out # outs1"
    by (auto split: option.splits)
  from a have "language out = t"
    by (auto simp: translated_record_def split: option.splits)
  with Cons.IH [OF b] c show ?case by simp
qed

lemma those_length: "those xs = Some ys \<Longrightarrow> length ys = length xs"
  by (induction xs arbitrary: ys) (auto split: option.splits)

lemma process_json_file_correct:
  assumes nb: "list_all no_backslash targets"
  shows "\<exists>run outs.
     process_json_file te st (Some v) rel n targets = Some run \<and>
     native_content_at run = Some (length (chapter_objs st)) \<and>
     translated_content_at run =
       [Suc (length (chapter_objs st))..<Suc (length (chapter_objs st)) + length targets] \<and>
     map snd (written run) = outs \<and>
     translated_records te n (translate_calls st) v targets = Some outs \<and>
     kept (fst (json_loads st v)) (run_store run) \<and>
     json_dumps (run_store run) (length (chapter_objs st)) = Some v \<and>
     map (json_dumps (run_store run)) (translated_content_at run) = map Some outs \<and>
     map (paragraph_addrs (run_store run))
         (length (chapter_objs st) # translated_content_at run) =
       blocks (length (paragraph_objs st)) (length (paragraphs v)) (Suc (length targets)) \<and>
     map (sentence_addrs (run_store run))
         (length (chapter_objs st) # translated_content_at run) =
       blocks (length (sentence_objs st)) (length (concat (map sentences (paragraphs v))))
         (Suc (length targets))"
proof -
  define st1 where "st1 = fst (json_loads st v)"
  define co where "co = \<lparr>obj_chapterID = chapterID v, obj_language = language v,
      obj_chapterNumber = chapterNumber v, obj_chapterTitle = chapterTitle v,
      obj_paragraphs = [length (paragraph_objs st)..<
                        length (paragraph_objs st) + length (paragraphs v)]\<rparr>"
  have a: "snd (json_loads st v) = length (chapter_objs st)"
    and c1: "chapter_objs st1 = chapter_objs st @ [co]"
    and p1: "paragraph_objs st1 =
               paragraph_objs st @ paragraph_objects (length (sentence_objs st)) (paragraphs v)"
    and s1: "sentence_objs st1 = sentence_objs st @ concat (map sentences (paragraphs v))"
    and k1: "translate_calls st1 = translate_calls st"
    and oc: "obj_paragraphs co =
               [length (paragraph_objs st)..<length (paragraph_objs st) + length (paragraphs v)]"
    by (simp_all add: st1_def json_loads_def co_def)
  have jd: "json_dumps st1 (length (chapter_objs st)) = Some v"
    using json_loads_dumps [of st v] by (simp add: st1_def a)
  from translate_targets_correct [OF nb jd, of te n rel] obtain st' outs paths where
    r1: "translated_records te n (translate_calls st1) v targets = Some outs"
    and r2: "those (map (output_path rel n) targets) = Some paths"
    and r3: "translate_targets te rel n (length (chapter_objs st)) st1 targets =
               Some (st', [length (chapter_objs st1)..<length (chapter_objs st1) + length targets],
                     zip paths outs)"
    and r4: "kept st1 st'"
    and r5: "map (json_dumps st')
               [length (chapter_objs st1)..<length (chapter_objs st1) + length targets] =
             map Some outs"
    and r6: "map (paragraph_addrs st')
               [length (chapter_objs st1)..<length (chapter_objs st1) + length targets] =
             blocks (length (paragraph_objs st1)) (length (paragraphs v)) (length targets)"
    and r7: "map (sentence_addrs st')
               [length (chapter_objs st1)..<length (chapter_objs st1) + length targets] =
             blocks (length (sentence_objs st1)) (length (concat (map sentences (paragraphs v))))
               (length targets)"
    by blast
  define run where "run = \<lparr>run_store = st', native_content_at = Some (length (chapter_objs st)),
      translated_content_at =
        [length (chapter_objs st1)..<length (chapter_objs st1) + length targets],
      written = zip paths outs\<rparr>"
  have lc: "length (chapter_objs st1) = Suc (length (chapter_objs st))"
    by (simp add: c1)
  have pj: "process_json_file te st (Some v) rel n targets = Some run"
    using r3 by (simp add: process_json_file_def split_beta a st1_def [symmetric] run_def)
  have lo: "length outs = length targets"
    using r5 length_map [of "json_dumps st'"] length_map [of Some outs] by (metis length_upt add_diff_cancel_left')
  have lp: "length paths = length targets"
    using those_length [OF r2] by simp
  have ms: "map snd (written run) = outs"
    using lo lp by (simp add: run_def)
  note ad = copy_addrs [OF c1 oc p1 r4]
  have b1: "map (paragraph_addrs (run_store run))
         (length (chapter_objs st) # translated_content_at run) =
       blocks (length (paragraph_objs st)) (length (paragraphs v)) (Suc (length targets))"
    using r6 ad(1) by (simp add: run_def p1)
  have b2: "map (sentence_addrs (run_store run))
         (length (chapter_objs st) # translated_content_at run) =
       blocks (length (sentence_objs st)) (length (concat (map sentences (paragraphs v))))
         (Suc (length targets))"
    using r7 ad(2) by (simp add: run_def s1)
  have kp: "kept (fst (json_loads st v)) (run_store run)"
    using r4 by (simp add: run_def st1_def)
  have jn: "json_dumps (run_store run) (length (chapter_objs st)) = Some v"
    using kept_json_dumps [OF r4 jd] by (simp add: run_def)
  have tc: "translated_content_at run =
       [Suc (length (chapter_objs st))..<Suc (length (chapter_objs st)) + length targets]"
    by (simp add: run_def lc)
  have nc: "native_content_at run = Some (length (chapter_objs st))"
    by (simp add: run_def)
  have r5': "map (json_dumps (run_store run)) (translated_content_at run) = map Some outs"
    using r5 by (simp add: run_def)
  have r1': "translated_records te n (translate_calls st) v targets = Some outs"
    using r1 by (simp add: k1)
  from pj nc tc ms r1' kp jn r5' b1 b2 show ?thesis by blast
qed

text \<open>
  Claim C8. For a native record read from a file and target languages (without a
  backslash, as every language code is), \<open>process_json_file\<close> runs to its end and leaves
  the native record as it was: read again after the run it is the record that was loaded,
  and no object that existed once it was loaded has changed. The record written for a
  target has that target as its language, and the written records are those the two passes
  give on the value of the native record: every one is made from the native text, none
  from another translation. The native record and the translated records are different
  objects, and no paragraph object and no sentence object belongs to two of them.
\<close>

theorem translation_keeps_native_record:
  "list_all no_backslash targets \<Longrightarrow>
   \<exists>run a.
     process_json_file te st (Some v) rel n targets = Some run \<and>
     native_content_at run = Some a \<and>
     json_dumps (run_store run) a = Some v \<and>
     kept (fst (json_loads st v)) (run_store run) \<and>
     map (\<lambda>w. language (snd w)) (written run) = targets \<and>
     translated_records te n (translate_calls st) v targets = Some (map snd (written run)) \<and>
     map (json_dumps (run_store run)) (translated_content_at run) =
       map (\<lambda>w. Some (snd w)) (written run) \<and>
     distinct (a # translated_content_at run) \<and>
     distinct (concat (map (paragraph_addrs (run_store run)) (a # translated_content_at run))) \<and>
     distinct (concat (map (sentence_addrs (run_store run)) (a # translated_content_at run)))"
proof -
  assume nb: "list_all no_backslash targets"
  from process_json_file_correct [OF nb, of te st v rel n] obtain run outs where
    pj: "process_json_file te st (Some v) rel n targets = Some run"
    and nc: "native_content_at run = Some (length (chapter_objs st))"
    and tc: "translated_content_at run =
       [Suc (length (chapter_objs st))..<Suc (length (chapter_objs st)) + length targets]"
    and ms: "map snd (written run) = outs"
    and tr: "translated_records te n (translate_calls st) v targets = Some outs"
    and kp: "kept (fst (json_loads st v)) (run_store run)"
    and jn: "json_dumps (run_store run) (length (chapter_objs st)) = Some v"
    and jc: "map (json_dumps (run_store run)) (translated_content_at run) = map Some outs"
    and b1: "map (paragraph_addrs (run_store run))
         (length (chapter_objs st) # translated_content_at run) =
       blocks (length (paragraph_objs st)) (length (paragraphs v)) (Suc (length targets))"
    and b2: "map (sentence_addrs (run_store run))
         (length (chapter_objs st) # translated_content_at run) =
       blocks (length (sentence_objs st)) (length (concat (map sentences (paragraphs v))))
         (Suc (length targets))"
    by blast
  have lang: "map (\<lambda>w. language (snd w)) (written run) = targets"
    using translated_records_language [OF tr] ms [symmetric] by (simp add: comp_def)
  have jc': "map (json_dumps (run_store run)) (translated_content_at run) =
       map (\<lambda>w. Some (snd w)) (written run)"
    using jc ms [symmetric] by (simp add: comp_def)
  have d0: "distinct (length (chapter_objs st) # translated_content_at run)"
    by (auto simp: tc)
  have d1: "distinct (concat (map (paragraph_addrs (run_store run))
              (length (chapter_objs st) # translated_content_at run)))"
    unfolding b1 concat_blocks by simp
  have d2: "distinct (concat (map (sentence_addrs (run_store run))
              (length (chapter_objs st) # translated_content_at run)))"
    unfolding b2 concat_blocks by simp
  from pj nc jn kp lang tr ms jc' d0 d1 d2 show ?thesis by blast
qed

theorem translation_keeps_native_record_witness:
  "list_all no_backslash [''es-ES'', ''de-DE''] \<and>
   native_content_at sample_run = Some 0 \<and>
   json_dumps (run_store sample_run) 0 = Some sample_native \<and>
   translated_content_at sample_run = [1, 2] \<and>
   map (\<lambda>w. language (snd w)) (written sample_run) = [''es-ES'', ''de-DE''] \<and>
   map (sentence_addrs (run_store sample_run)) [0, 1, 2] = [[0, 1, 2], [3, 4, 5], [6, 7, 8]] \<and>
   map (\<lambda>w. map sentence_text (chapter_sentences (snd w))) (written sample_run) =
     [[''[Spanish #0] Hello world.'', ''  '', ''[Spanish #1] Third one here.''],
      [''Hello world.'', ''  '', ''Third one here.'']]"
proof -
  have nb: "list_all no_backslash [''es-ES'', ''de-DE'']"
    by code_simp
  from translation_keeps_native_record [OF nb, of sample_tenv empty_store sample_native
         sample_rel_path "''en-US''"]
  obtain run a where
    pj: "process_json_file sample_tenv empty_store (Some sample_native) sample_rel_path
           ''en-US'' [''es-ES'', ''de-DE''] = Some run"
    and nc: "native_content_at run = Some a"
    and jn: "json_dumps (run_store run) a = Some sample_native"
    and lang: "map (\<lambda>w. language (snd w)) (written run) = [''es-ES'', ''de-DE'']"
    by (elim exE conjE) (rule that, assumption+)
  have run: "sample_run = run"
    by (simp add: sample_run_def pj)
  have v: "native_content_at sample_run = Some 0"
    "translated_content_at sample_run = [1, 2]"
    "map (sentence_addrs (run_store sample_run)) [0, 1, 2] = [[0, 1, 2], [3, 4, 5], [6, 7, 8]]"
    "map (\<lambda>w. map sentence_text (chapter_sentences (snd w))) (written sample_run) =
     [[''[Spanish #0] Hello world.'', ''  '', ''[Spanish #1] Third one here.''],
      [''Hello world.'', ''  '', ''Third one here.'']]"
    by code_simp+
  from v(1) nc have a: "a = 0"
    by (simp add: run)
  from nb jn lang v show ?thesis
    by (simp add: run a)
qed

lemma map_sentences_rel:
  "map_sentences body calls ss = Some (ss', calls') \<Longrightarrow>
     list_all2 (\<lambda>s s'. \<exists>k k'. body k s = Some (s', k')) ss ss'"
proof (induction ss arbitrary: calls ss')
  case Nil
  then show ?case by simp
next
  case (Cons s rest)
  from Cons.prems obtain s1 calls1 rest1 where
    a: "body calls s = Some (s1, calls1)"
    and b: "map_sentences body calls1 rest = Some (rest1, calls')"
    and c: "ss' = s1 # rest1"
    by (auto split: option.splits)
  from a Cons.IH [OF b] c show ?case by auto
qed

lemma map_paragraphs_rel:
  "map_paragraphs body calls ps = Some (ps', calls') \<Longrightarrow>
     list_all2 (\<lambda>p p'. list_all2 (\<lambda>s s'. \<exists>k k'. body k s = Some (s', k'))
                          (sentences p) (sentences p')) ps ps'"
proof (induction ps arbitrary: calls ps')
  case Nil
  then show ?case by simp
next
  case (Cons p rest)
  from Cons.prems obtain ss calls1 rest1 where
    a: "map_sentences body calls (sentences p) = Some (ss, calls1)"
    and b: "map_paragraphs body calls1 rest = Some (rest1, calls')"
    and c: "ps' = p\<lparr>sentences := ss\<rparr> # rest1"
    by (auto split: option.splits)
  from map_sentences_rel [OF a] Cons.IH [OF b] c show ?case by simp
qed

lemma translated_record_rel:
  assumes "translated_record te n t calls v = Some (out, calls')"
  shows "list_all2 (\<lambda>p p'. list_all2 (\<lambda>s s'. \<exists>k. translated_sentence te n t k s = Some s')
                      (sentences p) (sentences p')) (paragraphs v) (paragraphs out)"
proof -
  from assms obtain ps1 calls1 ps2 calls2 where
    m1: "map_paragraphs (process_sentence_fields te n t) calls (paragraphs v) = Some (ps1, calls1)"
    and m2: "map_paragraphs (update_audio_body n t) calls1 ps1 = Some (ps2, calls2)"
    and out: "out = v\<lparr>language := t, paragraphs := ps2\<rparr>"
    by (auto simp: translated_record_def split: option.splits)
  have sent: "\<exists>k. translated_sentence te n t k s = Some s'"
    if "\<exists>k k'. process_sentence_fields te n t k s = Some (s1, k')"
      and "\<exists>k k'. update_audio_body n t k s1 = Some (s', k')" for s s1 s'
  proof -
    from that(1) obtain k k' where a: "process_sentence_fields te n t k s = Some (s1, k')"
      by blast
    from that(2) have b: "update_audio_fields n t s1 = Some s'"
      by (auto simp: update_audio_body_def split: option.splits)
    from a b have "translated_sentence te n t k s = Some s'"
      by (simp add: translated_sentence_def)
    then show ?thesis ..
  qed
  have para: "list_all2 (\<lambda>s s'. \<exists>k. translated_sentence te n t k s = Some s')
                (sentences p) (sentences p')"
    if "list_all2 (\<lambda>s s'. \<exists>k k'. process_sentence_fields te n t k s = Some (s', k'))
          (sentences p) (sentences p1)"
      and "list_all2 (\<lambda>s s'. \<exists>k k'. update_audio_body n t k s = Some (s', k'))
          (sentences p1) (sentences p')" for p p1 p'
    using sent that by (rule list_all2_trans)
  have "list_all2 (\<lambda>p p'. list_all2 (\<lambda>s s'. \<exists>k. translated_sentence te n t k s = Some s')
                      (sentences p) (sentences p')) (paragraphs v) ps2"
    using para map_paragraphs_rel [OF m1] map_paragraphs_rel [OF m2]
    by (rule list_all2_trans)
  then show ?thesis by (simp add: out)
qed

lemma translated_records_rel:
  "translated_records te n calls v targets = Some outs \<Longrightarrow>
     list_all2 (\<lambda>t out. list_all2 (\<lambda>p p'. list_all2
                   (\<lambda>s s'. \<exists>k. translated_sentence te n t k s = Some s')
                   (sentences p) (sentences p')) (paragraphs v) (paragraphs out))
       targets outs"
proof (induction targets arbitrary: calls outs)
  case Nil
  then show ?case by simp
next
  case (Cons t rest)
  from Cons.prems obtain out calls1 outs1 where
    a: "translated_record te n t calls v = Some (out, calls1)"
    and b: "translated_records te n calls1 v rest = Some outs1"
    and c: "outs = out # outs1"
    by (auto split: option.splits)
  from translated_record_rel [OF a] Cons.IH [OF b] c show ?case by simp
qed

lemma translated_sentence_blank:
  assumes "translated_sentence te n t k s = Some s'" and "strip (sentence_text s) = []"
  shows "sentence_text s' = sentence_text s"
    and "re_sub_suffix n t ''.aac'' (audioFile s) = Some (audioFile s')"
    and "s' = s\<lparr>audioFile := audioFile s'\<rparr>"
  using assms
  by (auto simp: translated_sentence_def process_sentence_fields_def update_audio_fields_def
      Let_def split: option.splits)

lemma re_sub_suffix_match:
  "no_backslash t \<Longrightarrow>
     re_sub_suffix n t ext (base @ ''_'' @ n @ ext) = Some (base @ ''_'' @ t @ ext)"
  by (simp add: re_sub_suffix_def no_backslash_def ends_with_def Let_def)

lemma process_sentence_blank:
  assumes "strip (sentence_text (sentence_objs st ! a)) = []" and "a < length (sentence_objs st)"
  shows "process_sentence te n t st a = Some st"
  using assms
  by (simp add: process_sentence_def on_sentence_def process_sentence_fields_def Let_def)

text \<open>
  Claim C10. For a sentence whose text is empty or blank, the body of \<open>process_sentence\<close>
  changes nothing and calls no service: on the store, \<open>process_sentence\<close> returns the store
  as it was. The second loop of \<open>process_json_file\<close> still rewrites the audio file name of
  every sentence, and a name that ends with the native language code and \<open>.aac\<close> gets the
  target code in its place. In the records a run writes, every sentence is what the two
  loop bodies make of its own native sentence, whatever its neighbours are; for a blank
  sentence that is the native sentence with only the audio file name rewritten.
\<close>

theorem blank_text_sentence:
  "(strip (sentence_text s) = [] \<longrightarrow> process_sentence_fields te n t k s = Some (s, k)) \<and>
   (a < length (sentence_objs st) \<and> strip (sentence_text (sentence_objs st ! a)) = [] \<longrightarrow>
      process_sentence te n t st a = Some st) \<and>
   (a < length (sentence_objs st) \<and> no_backslash t \<longrightarrow>
      (\<exists>u. re_sub_suffix n t ''.aac'' (audioFile (sentence_objs st ! a)) = Some u \<and>
           update_audio_file n t st a =
             Some (st\<lparr>sentence_objs :=
                        (sentence_objs st)[a := (sentence_objs st ! a)\<lparr>audioFile := u\<rparr>]\<rparr>))) \<and>
   (no_backslash t \<longrightarrow>
      re_sub_suffix n t ''.aac'' (base @ ''_'' @ n @ ''.aac'') = Some (base @ ''_'' @ t @ ''.aac'')) \<and>
   (list_all no_backslash targets \<longrightarrow>
      (\<exists>run. process_json_file te st (Some v) rel n targets = Some run \<and>
         list_all2
           (\<lambda>target out.
              list_all2
                (\<lambda>p p'.
                   list_all2
                     (\<lambda>s s'.
                        (\<exists>k. translated_sentence te n target k s = Some s') \<and>
                        (strip (sentence_text s) = [] \<longrightarrow>
                           sentence_text s' = sentence_text s \<and>
                           re_sub_suffix n target ''.aac'' (audioFile s) = Some (audioFile s') \<and>
                           s' = s\<lparr>audioFile := audioFile s'\<rparr>))
                     (sentences p) (sentences p'))
                (paragraphs v) (paragraphs out))
           targets (map snd (written run))))"
proof -
  have c1: "process_sentence_fields te n t k s = Some (s, k)" if "strip (sentence_text s) = []"
    using that by (simp add: process_sentence_fields_def Let_def)
  have c2: "process_sentence te n t st a = Some st"
    if "a < length (sentence_objs st) \<and> strip (sentence_text (sentence_objs st ! a)) = []"
    using that process_sentence_blank by blast
  have c3: "\<exists>u. re_sub_suffix n t ''.aac'' (audioFile (sentence_objs st ! a)) = Some u \<and>
           update_audio_file n t st a =
             Some (st\<lparr>sentence_objs :=
                        (sentence_objs st)[a := (sentence_objs st ! a)\<lparr>audioFile := u\<rparr>]\<rparr>)"
    if "a < length (sentence_objs st) \<and> no_backslash t"
  proof -
    from that re_sub_suffix_total obtain u where
      u: "re_sub_suffix n t ''.aac'' (audioFile (sentence_objs st ! a)) = Some u"
      by blast
    with that show ?thesis
      by (simp add: update_audio_file_def on_sentence_def update_audio_body_def
          update_audio_fields_def)
  qed
  have c4: "re_sub_suffix n t ''.aac'' (base @ ''_'' @ n @ ''.aac'') =
              Some (base @ ''_'' @ t @ ''.aac'')" if "no_backslash t"
    using that by (rule re_sub_suffix_match)
  have c5: "\<exists>run. process_json_file te st (Some v) rel n targets = Some run \<and>
         list_all2
           (\<lambda>target out.
              list_all2
                (\<lambda>p p'.
                   list_all2
                     (\<lambda>s s'.
                        (\<exists>k. translated_sentence te n target k s = Some s') \<and>
                        (strip (sentence_text s) = [] \<longrightarrow>
                           sentence_text s' = sentence_text s \<and>
                           re_sub_suffix n target ''.aac'' (audioFile s) = Some (audioFile s') \<and>
                           s' = s\<lparr>audioFile := audioFile s'\<rparr>))
                     (sentences p) (sentences p'))
                (paragraphs v) (paragraphs out))
           targets (map snd (written run))"
    if nb: "list_all no_backslash targets"
  proof -
    from process_json_file_correct [OF nb, of te st v rel n] obtain run outs where
      pj: "process_json_file te st (Some v) rel n targets = Some run"
      and ms: "map snd (written run) = outs"
      and tr: "translated_records te n (translate_calls st) v targets = Some outs"
      by blast
    have "list_all2
           (\<lambda>target out.
              list_all2
                (\<lambda>p p'.
                   list_all2
                     (\<lambda>s s'.
                        (\<exists>k. translated_sentence te n target k s = Some s') \<and>
                        (strip (sentence_text s) = [] \<longrightarrow>
                           sentence_text s' = sentence_text s \<and>
                           re_sub_suffix n target ''.aac'' (audioFile s) = Some (audioFile s') \<and>
                           s' = s\<lparr>audioFile := audioFile s'\<rparr>))
                     (sentences p) (sentences p'))
                (paragraphs v) (paragraphs out))
           targets outs"
      using translated_records_rel [OF tr]
      by (rule list_all2_mono, elim list_all2_mono)
         (use translated_sentence_blank in blast)+
    with pj ms show ?thesis by blast
  qed
  from c1 c2 c3 c4 c5 show ?thesis by blast
qed

theorem blank_text_sentence_witness:
  "strip (sentence_text sample_blank) = [] \<and>
   process_sentence_fields sample_tenv ''en-US'' ''es-ES'' 1 sample_blank = Some (sample_blank, 1) \<and>
   sentence_objs sample_loaded ! 1 = sample_blank \<and>
   process_sentence sample_tenv ''en-US'' ''es-ES'' sample_loaded 1 = Some sample_loaded \<and>
   update_audio_file ''en-US'' ''es-ES'' sample_loaded 1 =
     Some (sample_loaded\<lparr>sentence_objs := (sentence_objs sample_loaded)
        [1 := sample_blank\<lparr>audioFile := ''0000002_BOOKM_S1_C1_P1_S2_es-ES.aac''\<rparr>]\<rparr>) \<and>
   length (written sample_run) = 2 \<and>
   map (\<lambda>s. (sentence_text s, audioFile s)) (chapter_sentences (snd (hd (written sample_run)))) =
     [(''[Spanish #0] Hello world.'', ''0000001_BOOKM_S1_C1_P1_S1_es-ES.aac''),
      (''  '', ''0000002_BOOKM_S1_C1_P1_S2_es-ES.aac''),
      (''[Spanish #1] Third one here.'', ''0000003_BOOKM_S1_C1_P2_S1_es-ES.aac'')]"
proof -
  have h: "strip (sentence_text sample_blank) = []"
    "1 < length (sentence_objs sample_loaded)"
    "sentence_objs sample_loaded ! 1 = sample_blank"
    "no_backslash ''es-ES''"
    "list_all no_backslash [''es-ES'', ''de-DE'']"
    "audioFile sample_blank = ''0000002_BOOKM_S1_C1_P1_S2'' @ ''_'' @ ''en-US'' @ ''.aac''"
    by code_simp+
  have v: "map (\<lambda>s. (sentence_text s, audioFile s))
             (chapter_sentences (snd (hd (written sample_run)))) =
     [(''[Spanish #0] Hello world.'', ''0000001_BOOKM_S1_C1_P1_S1_es-ES.aac''),
      (''  '', ''0000002_BOOKM_S1_C1_P1_S2_es-ES.aac''),
      (''[Spanish #1] Third one here.'', ''0000003_BOOKM_S1_C1_P2_S1_es-ES.aac'')]"
    by code_simp
  note t = blank_text_sentence [of sample_blank sample_tenv "''en-US''" "''es-ES''" 1 1
      sample_loaded "''0000002_BOOKM_S1_C1_P1_S2''" "[''es-ES'', ''de-DE'']" sample_native
      sample_rel_path]
  from t h(1) have w1:
    "process_sentence_fields sample_tenv ''en-US'' ''es-ES'' 1 sample_blank = Some (sample_blank, 1)"
    by blast
  from t h(1,2,3) have w2:
    "process_sentence sample_tenv ''en-US'' ''es-ES'' sample_loaded 1 = Some sample_loaded"
    by simp
  from t h(4) have w4: "re_sub_suffix ''en-US'' ''es-ES'' ''.aac''
       (''0000002_BOOKM_S1_C1_P1_S2'' @ ''_'' @ ''en-US'' @ ''.aac'') =
     Some (''0000002_BOOKM_S1_C1_P1_S2'' @ ''_'' @ ''es-ES'' @ ''.aac'')"
    by blast
  from t h(2,4) obtain u where
    u: "re_sub_suffix ''en-US'' ''es-ES'' ''.aac'' (audioFile (sentence_objs sample_loaded ! 1)) =
          Some u"
    and w3: "update_audio_file ''en-US'' ''es-ES'' sample_loaded 1 =
       Some (sample_loaded\<lparr>sentence_objs := (sentence_objs sample_loaded)
          [1 := (sentence_objs sample_loaded ! 1)\<lparr>audioFile := u\<rparr>]\<rparr>)"
    by blast
  from u w4 h(3,6) have u': "u = ''0000002_BOOKM_S1_C1_P1_S2_es-ES.aac''"
    by simp
  from t h(5) obtain run where
    pj: "process_json_file sample_tenv sample_loaded (Some sample_native) sample_rel_path
           ''en-US'' [''es-ES'', ''de-DE''] = Some run"
    by blast
  have w5: "length (written sample_run) = 2"
    by code_simp
  from h(1,3) w1 w2 w3 w5 v show ?thesis
    by (simp add: u')
qed

end
